theory Spec2Isabelle
  imports
    Main
    "HOL-Library.Word"
    "HOL-Library.AList"
    "HOL-Library.Char_ord"
    "HOL-Library.List_Lexorder"
begin

section \<open>Values, field contexts, rules\<close>

text \<open>
  A Go string is a sequence of bytes: \<^typ>\<open>string\<close>. A value of type \<open>any\<close> is one of
  the five container shapes that \<open>scrubValue\<close> tells apart, or a leaf. The leaves kept are
  the untyped nil, booleans, integers and strings. A map is an association list holding
  each key once; the traversal builds its output entry by entry, so the list order of the
  model stands for whatever order the iteration takes.
\<close>

datatype val =
    VNil
  | VBool bool
  | VInt int
  | VStr string
  | VObj "(string \<times> val) list"
  | VStrMap "(string \<times> string) list"
  | VStrListMap "(string \<times> string list) list"
  | VStrList "string list"
  | VList "val list"

record FieldContext =
  Path :: "string list"
  Key :: string
  Value :: val

type_synonym FieldMatcher = "FieldContext \<Rightarrow> bool"

type_synonym ScrubFunc = "FieldContext \<Rightarrow> val"

text \<open>A nil function value is \<open>None\<close>.\<close>

record Rule =
  Name :: string
  Match :: "FieldMatcher option"
  Apply :: "ScrubFunc option"
  Continue :: bool

record Scrubber =
  rules :: "Rule list"
  defaultReplacement :: string
  includeDefaults :: bool

type_synonym ScrubberOption = "Scrubber \<Rightarrow> Scrubber"

section \<open>The parts of the Go library the scrubber calls\<close>

text \<open>
  \<open>strings.ToLower\<close> and \<open>strings.TrimSpace\<close> have a path for ASCII, written out below,
  and a path through the Unicode tables, which the record \<open>golib\<close> carries together
  with the JSON codec: \<open>unicodeToLower\<close> is \<open>strings.Map(unicode.ToLower, s)\<close>,
  \<open>unicodeTrim\<close> is \<open>TrimFunc(s, unicode.IsSpace)\<close>, \<open>jsonUnmarshal\<close> and \<open>jsonMarshal\<close>
  return \<open>Inl\<close> of the error's text when they fail.
\<close>

record golib =
  unicodeToLower :: "string \<Rightarrow> string"
  unicodeTrim :: "string \<Rightarrow> string"
  jsonUnmarshal :: "string \<Rightarrow> string + val"
  jsonMarshal :: "val \<Rightarrow> string + string"

definition byte :: "char \<Rightarrow> nat" where
  "byte c = of_char c"

definition isASCII :: "string \<Rightarrow> bool" where
  "isASCII s = list_all (\<lambda>c. byte c < 0x80) s"

definition lowerByte :: "char \<Rightarrow> char" where
  "lowerByte c = (if 0x41 \<le> byte c \<and> byte c \<le> 0x5A then char_of (byte c + 0x20) else c)"

definition ToLower :: "golib \<Rightarrow> string \<Rightarrow> string" where
  "ToLower L s = (if isASCII s then map lowerByte s else unicodeToLower L s)"

definition asciiSpace :: "char \<Rightarrow> bool" where
  "asciiSpace c = (byte c \<in> {0x09, 0x0A, 0x0B, 0x0C, 0x0D, 0x20})"

text \<open>
  \<open>TrimSpace\<close> scans from the front, then from the back; the first byte outside ASCII
  that either scan meets hands the rest to the Unicode path.
\<close>

fun trimBack :: "golib \<Rightarrow> string \<Rightarrow> string" where
  "trimBack L [] = []"
| "trimBack L (c # cs) =
     (if 0x80 \<le> byte c then rev (unicodeTrim L (rev (c # cs)))
      else if asciiSpace c then trimBack L cs
      else c # cs)"

fun trimFront :: "golib \<Rightarrow> string \<Rightarrow> string" where
  "trimFront L [] = []"
| "trimFront L (c # cs) =
     (if 0x80 \<le> byte c then unicodeTrim L (c # cs)
      else if asciiSpace c then trimFront L cs
      else rev (trimBack L (rev (c # cs))))"

definition TrimSpace :: "golib \<Rightarrow> string \<Rightarrow> string" where
  "TrimSpace L s = trimFront L s"

text \<open>Decimal digits of a natural number, for \<open>%d\<close>.\<close>

fun digits :: "nat \<Rightarrow> string" where
  "digits n = (if n < 10 then [char_of (48 + n)] else digits (n div 10) @ [char_of (48 + n mod 10)])"

declare digits.simps [simp del]

definition itoa :: "int \<Rightarrow> string" where
  "itoa i = (if i < 0 then CHR ''-'' # digits (nat (- i)) else digits (nat i))"

definition indexSegment :: "nat \<Rightarrow> string" where
  "indexSegment i = ''['' @ digits i @ '']''"

fun join :: "string \<Rightarrow> string list \<Rightarrow> string" where
  "join sep [] = []"
| "join sep [x] = x"
| "join sep (x # y # ys) = x @ sep @ join sep (y # ys)"

subsection \<open>UTF-8\<close>

text \<open>
  A rune is an \<open>int32\<close>, here an \<^typ>\<open>int\<close>. Decoding follows \<open>utf8.DecodeRuneInString\<close>:
  a byte that starts no well-formed sequence decodes to \<open>RuneError\<close> with width 1.
\<close>

type_synonym rune = int

definition RuneError :: rune where
  "RuneError = 0xFFFD"

fun DecodeRuneInString :: "string \<Rightarrow> rune \<times> nat" where
  "DecodeRuneInString [] = (RuneError, 0)"
| "DecodeRuneInString (c0 # rest) =
     (let s0 = byte c0 in
      if s0 < 0x80 then (int s0, 1)
      else if s0 < 0xC2 \<or> 0xF4 < s0 then (RuneError, 1)
      else
        let sz = (if s0 < 0xE0 then 2 else if s0 < 0xF0 then 3 else 4 :: nat);
            lo = (if s0 = 0xE0 then 0xA0 else if s0 = 0xF0 then 0x90 else 0x80);
            hi = (if s0 = 0xED then 0x9F else if s0 = 0xF4 then 0x8F else 0xBF)
        in
          if length rest + 1 < sz then (RuneError, 1)
          else
            let s1 = byte (rest ! 0) in
            if s1 < lo \<or> hi < s1 then (RuneError, 1)
            else if sz \<le> 2 then (int ((s0 mod 32) * 64 + s1 mod 64), 2)
            else
              let s2 = byte (rest ! 1) in
              if s2 < 0x80 \<or> 0xBF < s2 then (RuneError, 1)
              else if sz \<le> 3 then
                (int ((s0 mod 16) * 4096 + (s1 mod 64) * 64 + s2 mod 64), 3)
              else
                let s3 = byte (rest ! 2) in
                if s3 < 0x80 \<or> 0xBF < s3 then (RuneError, 1)
                else
                  (int ((s0 mod 8) * 262144 + (s1 mod 64) * 4096 + (s2 mod 64) * 64
                     + s3 mod 64), 4))"

text \<open>The conversion \<open>[]rune(s)\<close>.\<close>

fun runesOf :: "string \<Rightarrow> rune list" where
  "runesOf [] = []"
| "runesOf (c # cs) =
     (case DecodeRuneInString (c # cs) of
        (r, w) \<Rightarrow> r # runesOf (drop (w - 1) cs))"

text \<open>The conversion \<open>string(r)\<close> of one rune: an invalid rune encodes as \<open>RuneError\<close>.\<close>

definition encodeRune :: "rune \<Rightarrow> string" where
  "encodeRune r0 =
     (let r = (if r0 < 0 \<or> 0x10FFFF < r0 \<or> (0xD800 \<le> r0 \<and> r0 \<le> 0xDFFF)
               then RuneError else r0);
          n = nat r
      in
        if n < 0x80 then [char_of n]
        else if n < 0x800 then [char_of (0xC0 + n div 64), char_of (0x80 + n mod 64)]
        else if n < 0x10000 then
          [char_of (0xE0 + n div 4096), char_of (0x80 + (n div 64) mod 64),
           char_of (0x80 + n mod 64)]
        else
          [char_of (0xF0 + n div 262144), char_of (0x80 + (n div 4096) mod 64),
           char_of (0x80 + (n div 64) mod 64), char_of (0x80 + n mod 64)])"

text \<open>The conversion \<open>string(rs)\<close> of a rune slice, and \<open>strings.Repeat\<close>.\<close>

definition stringOfRunes :: "rune list \<Rightarrow> string" where
  "stringOfRunes rs = concat (map encodeRune rs)"

definition Repeat :: "string \<Rightarrow> nat \<Rightarrow> string" where
  "Repeat s n = concat (replicate n s)"

section \<open>Textual rendering\<close>

text \<open>
  \<open>fmt.Sprint\<close> of one operand prints it with \<open>%v\<close>: a string as it is, the nil
  interface as \<open><nil>\<close>, a slice as its elements between brackets, a map as
  \<open>map[k:v ...]\<close> with the keys sorted.
\<close>

definition sprintStrList :: "string list \<Rightarrow> string" where
  "sprintStrList xs = ''['' @ join '' '' xs @ '']''"

definition sprintMap :: "(string \<times> string) list \<Rightarrow> string" where
  "sprintMap kvs =
     ''map['' @ join '' '' (map (\<lambda>(k, v). k @ '':'' @ v) (sort_key fst kvs)) @ '']''"

fun Sprint :: "val \<Rightarrow> string" where
  "Sprint VNil = ''<nil>''"
| "Sprint (VBool b) = (if b then ''true'' else ''false'')"
| "Sprint (VInt i) = itoa i"
| "Sprint (VStr s) = s"
| "Sprint (VObj kvs) = sprintMap (map (\<lambda>(k, v). (k, Sprint v)) kvs)"
| "Sprint (VStrMap kvs) = sprintMap kvs"
| "Sprint (VStrListMap kvs) = sprintMap (map (\<lambda>(k, vs). (k, sprintStrList vs)) kvs)"
| "Sprint (VStrList xs) = sprintStrList xs"
| "Sprint (VList xs) = sprintStrList (map Sprint xs)"

text \<open>None of the shapes of \<^typ>\<open>val\<close> is a \<open>fmt.Stringer\<close>.\<close>

definition toString :: "val \<Rightarrow> string" where
  "toString v = (case v of VNil \<Rightarrow> [] | VStr s \<Rightarrow> s | _ \<Rightarrow> Sprint v)"

text \<open>
  \<open>toStringSlice\<close> returns a \<open>[]string\<close>, nil for a nil value; the nil slice and the
  empty slice are both \<open>[]\<close>. \<open>desiredLen\<close> is the length of a slice, never negative.
\<close>

definition toStringSlice :: "val \<Rightarrow> nat \<Rightarrow> string list" where
  "toStringSlice v desiredLen =
     (case v of
        VNil \<Rightarrow> []
      | VStrList xs \<Rightarrow> xs
      | VList xs \<Rightarrow> map toString xs
      | VStr x \<Rightarrow> (if desiredLen \<le> 0 then [x] else replicate desiredLen x)
      | _ \<Rightarrow> (if desiredLen \<le> 0 then [toString v] else replicate desiredLen (toString v)))"

section \<open>Matchers\<close>

definition MatchAny :: "FieldMatcher option list \<Rightarrow> FieldMatcher" where
  "MatchAny matchers ctx = list_ex (\<lambda>m. case m of None \<Rightarrow> False | Some f \<Rightarrow> f ctx) matchers"

definition MatchAll :: "FieldMatcher option list \<Rightarrow> FieldMatcher" where
  "MatchAll matchers ctx = list_all (\<lambda>m. case m of None \<Rightarrow> True | Some f \<Rightarrow> f ctx) matchers"

definition MatchNot :: "FieldMatcher option \<Rightarrow> FieldMatcher" where
  "MatchNot matcher ctx = (case matcher of None \<Rightarrow> False | Some f \<Rightarrow> \<not> f ctx)"

definition normalizeKeys :: "golib \<Rightarrow> string list \<Rightarrow> string list" where
  "normalizeKeys L keys =
     map (ToLower L) (filter (\<lambda>trimmed. trimmed \<noteq> []) (map (TrimSpace L) keys))"

definition MatchKeyInsensitive :: "golib \<Rightarrow> string list \<Rightarrow> FieldMatcher" where
  "MatchKeyInsensitive L keys =
     (let normalized = normalizeKeys L keys
      in (\<lambda>ctx. list_ex (\<lambda>candidate. ToLower L (Key ctx) = candidate) normalized))"

text \<open>
  A compiled regular expression is the predicate \<open>MatchString\<close> computes; a nil
  \<open>*regexp.Regexp\<close> is \<open>None\<close>.
\<close>

definition MatchKeyRegexp :: "(string \<Rightarrow> bool) option \<Rightarrow> FieldMatcher" where
  "MatchKeyRegexp re ctx = (case re of None \<Rightarrow> False | Some matchString \<Rightarrow> matchString (Key ctx))"

definition MatchValueRegexp :: "(string \<Rightarrow> bool) option \<Rightarrow> FieldMatcher" where
  "MatchValueRegexp re ctx =
     (case re of
        None \<Rightarrow> False
      | Some matchString \<Rightarrow> if Value ctx = VNil then False else matchString (Sprint (Value ctx)))"

section \<open>Transforms\<close>

definition ReplaceWith :: "string \<Rightarrow> ScrubFunc" where
  "ReplaceWith replacement = (\<lambda>ctx. VStr replacement)"

definition RemoveValue :: ScrubFunc where
  "RemoveValue = (\<lambda>ctx. VNil)"

definition NewRule :: "string \<Rightarrow> FieldMatcher option \<Rightarrow> ScrubFunc option \<Rightarrow> Rule" where
  "NewRule name matcher scrub = \<lparr>Name = name, Match = matcher, Apply = scrub, Continue = False\<rparr>"

text \<open>
  \<open>MaskString\<close> takes \<open>keepStart\<close> and \<open>keepEnd\<close> as Go \<open>int\<close>s, 64 bits wide and signed:
  their sum wraps around. A slice expression out of range and a negative \<open>Repeat\<close> count
  panic; the capacity of the rune slice is taken to be its length, and the panics are
  not told apart.
\<close>

datatype panic = RuntimePanic

definition MaskString :: "rune \<Rightarrow> 64 word \<Rightarrow> 64 word \<Rightarrow> FieldContext \<Rightarrow> panic + val" where
  "MaskString mask0 keepStart0 keepEnd0 =
     (let mask = (if mask0 = 0 then 0x2A else mask0);
          keepStart = (if sint keepStart0 < 0 then 0 else keepStart0);
          keepEnd = (if sint keepEnd0 < 0 then 0 else keepEnd0);
          maskStr = encodeRune mask
      in (\<lambda>ctx.
        if Value ctx = VNil then Inr VNil
        else
          let value = Sprint (Value ctx) in
          if value = [] then Inr (VStr value)
          else
            let runes = runesOf value;
                len = int (length runes)
            in
              if len = 0 then Inr (VStr value)
              else if sint (keepStart + keepEnd) \<ge> len then Inr (VStr (Repeat maskStr (nat len)))
              else if 0 < sint keepStart \<and> len < sint keepStart then Inl RuntimePanic
              else
                let pre = (if 0 < sint keepStart then stringOfRunes (take (unat keepStart) runes)
                           else []);
                    maskedCount = len - sint keepStart - sint keepEnd
                in
                  if maskedCount < 0 then Inl RuntimePanic
                  else if 0 < sint keepEnd \<and> len - sint keepEnd < 0 then Inl RuntimePanic
                  else
                    Inr (VStr (pre @ Repeat maskStr (nat maskedCount) @
                      (if 0 < sint keepEnd
                       then stringOfRunes (drop (nat (len - sint keepEnd)) runes)
                       else [])))))"

section \<open>Rule application and traversal\<close>

text \<open>
  The loop of \<open>applyRules\<close> over the rules still to come, with the working value
  \<open>current\<close> and the flag \<open>matched\<close>; \<open>break\<close> returns at once.
\<close>

fun applyLoop :: "Rule list \<Rightarrow> FieldContext \<Rightarrow> val \<Rightarrow> bool \<Rightarrow> val \<times> bool" where
  "applyLoop [] ctx current matched = (current, matched)"
| "applyLoop (rule # rest) ctx current matched =
     (if (case Match rule of
            None \<Rightarrow> False
          | Some matcher \<Rightarrow> \<not> matcher \<lparr>Path = Path ctx, Key = Key ctx, Value = current\<rparr>)
      then applyLoop rest ctx current matched
      else
        (case Apply rule of
           None \<Rightarrow> applyLoop rest ctx current matched
         | Some apply \<Rightarrow>
             let current' = apply \<lparr>Path = Path ctx, Key = Key ctx, Value = current\<rparr> in
             if \<not> Continue rule then (current', True)
             else applyLoop rest ctx current' True))"

definition applyRules :: "Scrubber \<Rightarrow> FieldContext \<Rightarrow> val \<times> bool" where
  "applyRules s ctx =
     (case applyLoop (rules s) ctx (Value ctx) False of
        (current, matched) \<Rightarrow> if matched then (current, True) else (VNil, False))"

text \<open>A measure for the traversal: a string is below every container that holds it.\<close>

fun depth :: "val \<Rightarrow> nat" where
  "depth (VObj kvs) = Suc (sum_list (map (\<lambda>(k, v). depth v) kvs))"
| "depth (VList xs) = Suc (sum_list (map depth xs))"
| "depth (VStrMap kvs) = 1"
| "depth (VStrListMap kvs) = 1"
| "depth (VStrList xs) = 1"
| "depth v = 0"

lemma depth_entry: "(k, v) \<in> set kvs \<Longrightarrow> depth v < Suc (sum_list (map (\<lambda>(k, v). depth v) kvs))"
  by (induction kvs) auto

lemma depth_elem: "x \<in> set xs \<Longrightarrow> depth x < Suc (sum_list (map depth xs))"
  by (induction xs) auto

function (sequential) scrubValue :: "Scrubber \<Rightarrow> val \<Rightarrow> string list \<Rightarrow> val" where
  "scrubValue s (VObj v) path =
     VObj (map (\<lambda>(k, val).
       let currentPath = path @ [k];
           ctx = \<lparr>Path = currentPath, Key = k, Value = val\<rparr>
       in case applyRules s ctx of
            (replaced, ok) \<Rightarrow>
              if ok then (k, replaced) else (k, scrubValue s val currentPath)) v)"
| "scrubValue s (VStrMap v) path =
     VStrMap (map (\<lambda>(k, val).
       let currentPath = path @ [k];
           ctx = \<lparr>Path = currentPath, Key = k, Value = VStr val\<rparr>
       in case applyRules s ctx of
            (replaced, ok) \<Rightarrow>
              if ok then (k, toString replaced)
              else (k, toString (scrubValue s (VStr val) currentPath))) v)"
| "scrubValue s (VStrListMap v) path =
     VStrListMap (map (\<lambda>(k, vals).
       let currentPath = path @ [k];
           ctx = \<lparr>Path = currentPath, Key = k, Value = VStrList vals\<rparr>
       in case applyRules s ctx of
            (replaced, ok) \<Rightarrow>
              if ok then (k, toStringSlice replaced (length vals))
              else
                (k, map (\<lambda>(i, item).
                      let elementPath = currentPath @ [indexSegment i]
                      in toString (scrubValue s (VStr item) elementPath))
                    (enumerate 0 vals))) v)"
| "scrubValue s (VStrList v) path =
     VStrList (map (\<lambda>(i, val).
       let elementPath = path @ [indexSegment i];
           ctx = \<lparr>Path = elementPath, Key = indexSegment i, Value = VStr val\<rparr>
       in case applyRules s ctx of
            (replaced, ok) \<Rightarrow>
              if ok then toString replaced
              else toString (scrubValue s (VStr val) elementPath)) (enumerate 0 v))"
| "scrubValue s (VList v) path = VList (map (\<lambda>val. scrubValue s val path) v)"
| "scrubValue s value path = value"
  by pat_completeness auto

termination
  by (relation "measure (\<lambda>(s, v, path). depth v)") (auto simp: depth_entry depth_elem)

section \<open>The scrubber and its entry points\<close>

definition defaultVocabulary :: "string list" where
  "defaultVocabulary =
     [''password'', ''pass'', ''passwd'', ''secret'', ''token'', ''auth'', ''authorization'',
      ''api_key'', ''apikey'', ''access_token'', ''refresh_token'', ''session'', ''cookie'',
      ''set-cookie'']"

definition defaultSensitiveRules :: "golib \<Rightarrow> string \<Rightarrow> Rule list" where
  "defaultSensitiveRules L replacement =
     (let matcher = MatchKeyInsensitive L defaultVocabulary
      in [\<lparr>Name = ''default-sensitive'', Match = Some matcher,
            Apply = Some (ReplaceWith replacement), Continue = False\<rparr>])"

definition WithRules :: "Rule list \<Rightarrow> ScrubberOption" where
  "WithRules rs = (\<lambda>s. if length rs = 0 then s else s\<lparr>rules := rules s @ rs\<rparr>)"

definition WithoutDefaultRules :: ScrubberOption where
  "WithoutDefaultRules = (\<lambda>s. s\<lparr>includeDefaults := False\<rparr>)"

definition WithDefaultReplacement :: "string \<Rightarrow> ScrubberOption" where
  "WithDefaultReplacement replacement =
     (\<lambda>s. if replacement = [] then s else s\<lparr>defaultReplacement := replacement\<rparr>)"

text \<open>The loop of \<open>NewScrubber\<close> over its options; a nil option is skipped.\<close>

fun applyOptions :: "ScrubberOption option list \<Rightarrow> Scrubber \<Rightarrow> Scrubber" where
  "applyOptions [] s = s"
| "applyOptions (None # opts) s = applyOptions opts s"
| "applyOptions (Some opt # opts) s = applyOptions opts (opt s)"

definition NewScrubber :: "golib \<Rightarrow> ScrubberOption option list \<Rightarrow> Scrubber" where
  "NewScrubber L opts =
     (let s = applyOptions opts
                \<lparr>rules = [], defaultReplacement = ''[REDACTED]'', includeDefaults = True\<rparr>
      in if includeDefaults s
         then s\<lparr>rules := rules s @ defaultSensitiveRules L (defaultReplacement s)\<rparr>
         else s)"

definition AddRules :: "Scrubber option \<Rightarrow> Rule list \<Rightarrow> Scrubber option" where
  "AddRules s rs =
     (case s of
        None \<Rightarrow> None
      | Some scr \<Rightarrow> if length rs = 0 then Some scr else Some (scr\<lparr>rules := rules scr @ rs\<rparr>))"

text \<open>A nil receiver is \<open>None\<close>.\<close>

definition Scrub :: "Scrubber option \<Rightarrow> val \<Rightarrow> val" where
  "Scrub s v = (case s of None \<Rightarrow> v | Some scr \<Rightarrow> scrubValue scr v [])"

text \<open>
  \<open>ScrubJSON\<close> returns its bytes and its error; \<open>None\<close> is nil. \<open>append([]byte(nil),
  data...)\<close> is a new slice holding the bytes of \<open>data\<close>, and the nil slice when
  \<open>data\<close> has no bytes: \<open>copyBytes\<close>. \<open>bytesOf\<close> reads a slice, the nil slice as no bytes.
\<close>

definition copyBytes :: "string \<Rightarrow> string option" where
  "copyBytes data = (if length data = 0 then None else Some data)"

definition bytesOf :: "string option \<Rightarrow> string" where
  "bytesOf b = (case b of None \<Rightarrow> [] | Some bs \<Rightarrow> bs)"

definition ScrubJSON :: "golib \<Rightarrow> Scrubber option \<Rightarrow> string \<Rightarrow> string option \<times> string option" where
  "ScrubJSON L s data =
     (case s of
        None \<Rightarrow> (copyBytes data, None)
      | Some scr \<Rightarrow>
          let trimmed = TrimSpace L data in
          if length trimmed = 0 then (copyBytes data, None)
          else
            (case jsonUnmarshal L trimmed of
               Inl err \<Rightarrow> (None, Some (''scrubber: decode json: '' @ err))
             | Inr payload \<Rightarrow>
                 let scrubbed = scrubValue scr payload [] in
                 (case jsonMarshal L scrubbed of
                    Inl err \<Rightarrow> (None, Some (''scrubber: encode json: '' @ err))
                  | Inr result \<Rightarrow> (Some result, None))))"

subsection \<open>Flat string maps as references\<close>

text \<open>
  A \<open>map[string]string\<close> is a reference. The store holds the contents of every map of
  that type allocated so far, the address of a map being its index; the nil map is
  \<open>None\<close> and reads as the empty map. \<open>make\<close> allocates the next address, and an
  assignment \<open>m[k] = v\<close> updates the contents at the address of \<open>m\<close>.
\<close>

type_synonym addr = nat

type_synonym store = "(string \<times> string) list list"

definition mapContents :: "store \<Rightarrow> addr option \<Rightarrow> (string \<times> string) list" where
  "mapContents h m = (case m of None \<Rightarrow> [] | Some a \<Rightarrow> h ! a)"

definition makeMap :: "store \<Rightarrow> store \<times> addr" where
  "makeMap h = (h @ [[]], length h)"

definition mapassign :: "store \<Rightarrow> addr \<Rightarrow> string \<Rightarrow> string \<Rightarrow> store" where
  "mapassign h a k v = h[a := AList.update k v (h ! a)]"

definition cloneTags :: "store \<Rightarrow> addr option \<Rightarrow> store \<times> addr option" where
  "cloneTags h tags =
     (if length (mapContents h tags) = 0 then (h, None)
      else
        (case makeMap h of
           (h1, cloned) \<Rightarrow>
             (fold (\<lambda>(k, v) h'. mapassign h' cloned k v) (mapContents h tags) h1,
              Some cloned)))"

text \<open>
  The maps \<open>generic\<close> and \<open>result\<close> of \<open>ScrubStringMap\<close> are of type \<open>map[string]any\<close>,
  made and dropped inside the call: they are values here.
\<close>

definition ScrubStringMap :: "Scrubber option \<Rightarrow> store \<Rightarrow> addr option \<Rightarrow> store \<times> addr option" where
  "ScrubStringMap s h data =
     (case cloneTags h data of
        (h1, cloned) \<Rightarrow>
          (case s of
             None \<Rightarrow> (h1, cloned)
           | Some scr \<Rightarrow>
               if length (mapContents h1 cloned) = 0 then (h1, cloned)
               else
                 let generic = VObj (map (\<lambda>(k, v). (k, VStr v)) (mapContents h1 cloned));
                     scrubbed = scrubValue scr generic []
                 in
                   (case scrubbed of
                      VObj result \<Rightarrow>
                        (case makeMap h1 of
                           (h2, final) \<Rightarrow>
                             (fold (\<lambda>(k, v) h'. mapassign h' final k (toString v)) result h2,
                              Some final))
                    | _ \<Rightarrow> (h1, cloned))))"

section \<open>Notions used in the statements\<close>

text \<open>
  A rule fires on the working value when its matcher does not reject it (a nil matcher
  rejects nothing) and it has a transform: the two tests of the loop body.
\<close>

definition fires :: "Rule \<Rightarrow> FieldContext \<Rightarrow> val \<Rightarrow> bool" where
  "fires rule ctx current =
     ((case Match rule of
         None \<Rightarrow> True
       | Some matcher \<Rightarrow> matcher \<lparr>Path = Path ctx, Key = Key ctx, Value = current\<rparr>)
      \<and> Apply rule \<noteq> None)"

text \<open>
  \<open>lastFired\<close> runs the loop of \<open>applyRules\<close> and returns the rule whose output is the
  final working value: the last rule applied, if any.
\<close>

fun lastFired :: "Rule list \<Rightarrow> FieldContext \<Rightarrow> val \<Rightarrow> Rule option \<Rightarrow> Rule option" where
  "lastFired [] ctx current prev = prev"
| "lastFired (rule # rest) ctx current prev =
     (if (case Match rule of
            None \<Rightarrow> False
          | Some matcher \<Rightarrow> \<not> matcher \<lparr>Path = Path ctx, Key = Key ctx, Value = current\<rparr>)
      then lastFired rest ctx current prev
      else
        (case Apply rule of
           None \<Rightarrow> lastFired rest ctx current prev
         | Some apply \<Rightarrow>
             let current' = apply \<lparr>Path = Path ctx, Key = Key ctx, Value = current\<rparr> in
             if \<not> Continue rule then Some rule
             else lastFired rest ctx current' (Some rule)))"

text \<open>
  A key belongs to the built-in vocabulary, case-insensitively, when its lower-cased form
  is one of the vocabulary's words.
\<close>

definition sensitiveKey :: "golib \<Rightarrow> string \<Rightarrow> bool" where
  "sensitiveKey L k = (ToLower L k \<in> set defaultVocabulary)"

text \<open>
  A position in a tree is the list of object keys and list indices that leads to it;
  \<open>keysOf\<close> is the path the traversal has built when it arrives there, which list
  indices do not extend. \<open>cleanVal\<close> holds of a value no key of which, at any depth,
  belongs to the vocabulary.
\<close>

datatype step = AtKey string | AtIndex nat




text \<open>
  Rule evaluation as the specification words it: the rules are gone through in order
  with a working value, a flag that some rule matched and a flag that evaluation has
  stopped. A rule that fires on the working value replaces it by its transform's
  output and marks the match; with its chain flag false it stops the evaluation, and
  once stopped no later rule is looked at. \<open>evaluateInOrder\<close> reports the match and the
  final working value.
\<close>

record evalState =
  working :: val
  anyMatched :: bool
  stopped :: bool

definition specStep :: "FieldContext \<Rightarrow> evalState \<Rightarrow> Rule \<Rightarrow> evalState" where
  "specStep ctx st rule =
     (if stopped st then st
      else if fires rule ctx (working st)
      then \<lparr>working = the (Apply rule) \<lparr>Path = Path ctx, Key = Key ctx, Value = working st\<rparr>,
            anyMatched = True,
            stopped = (\<not> Continue rule)\<rparr>
      else st)"

definition evaluateFrom :: "Rule list \<Rightarrow> FieldContext \<Rightarrow> val \<Rightarrow> bool \<Rightarrow> evalState" where
  "evaluateFrom rs ctx current matched =
     foldl (specStep ctx) \<lparr>working = current, anyMatched = matched, stopped = False\<rparr> rs"

definition evaluateInOrder :: "Rule list \<Rightarrow> FieldContext \<Rightarrow> val \<times> bool" where
  "evaluateInOrder rs ctx =
     (let st = evaluateFrom rs ctx (Value ctx) False
      in if anyMatched st then (working st, True) else (VNil, False))"

text \<open>
  A leaf is a value that is none of the five container shapes.
\<close>

fun isLeaf :: "val \<Rightarrow> bool" where
  "isLeaf VNil = True"
| "isLeaf (VBool b) = True"
| "isLeaf (VInt i) = True"
| "isLeaf (VStr x) = True"
| "isLeaf v = False"

text \<open>
  The entry that \<open>ScrubStringMap\<close> is to return for an entry of its input: the entry
  itself under a nil receiver or when no rule matches the field, and otherwise the key
  with the rules' output as a string.
\<close>

definition scrubEntry :: "Scrubber option \<Rightarrow> string \<times> string \<Rightarrow> string \<times> string" where
  "scrubEntry s e =
     (case e of
        (k, v) \<Rightarrow>
          (case s of
             None \<Rightarrow> (k, v)
           | Some scr \<Rightarrow>
               (case applyRules scr \<lparr>Path = [k], Key = k, Value = VStr v\<rparr> of
                  (replaced, ok) \<Rightarrow> if ok then (k, toString replaced) else (k, v))))"

section \<open>Instances for closed examples\<close>

text \<open>
  The examples are over ASCII, so the Unicode paths are never taken; the JSON codec of
  the instance knows the one document the examples decode and the one tree they encode,
  and reports every other document as cut short, which the one the examples fail on is.
\<close>

definition exampleLib :: golib where
  \<open>exampleLib =
     \<lparr>unicodeToLower = (\<lambda>s. s),
      unicodeTrim = (\<lambda>s. s),
      jsonUnmarshal = (\<lambda>s. if s = ''{"token":"abc"}'' then Inr (VObj [(''token'', VStr ''abc'')])
                            else Inl ''unexpected end of JSON input''),
      jsonMarshal = (\<lambda>v. if v = VObj [(''token'', VStr ''[REDACTED]'')]
                          then Inr ''{"token":"[REDACTED]"}''
                          else Inl ''unsupported value'')\<rparr>\<close>

text \<open>
  The example of C4: R1 matches the key \<open>a\<close> and replaces with \<open>x\<close>; R2 matches the key
  \<open>a\<close> holding \<open>x\<close> and replaces with \<open>y\<close>.
\<close>

definition R1 :: "bool \<Rightarrow> Rule" where
  "R1 chain = \<lparr>Name = ''R1'', Match = Some (\<lambda>ctx. Key ctx = ''a''),
               Apply = Some (ReplaceWith ''x''), Continue = chain\<rparr>"

definition R2 :: Rule where
  "R2 = \<lparr>Name = ''R2'', Match = Some (\<lambda>ctx. Key ctx = ''a'' \<and> Value ctx = VStr ''x''),
         Apply = Some (ReplaceWith ''y''), Continue = False\<rparr>"

definition chainScrubber :: "bool \<Rightarrow> Scrubber" where
  "chainScrubber chain =
     \<lparr>rules = [R1 chain, R2], defaultReplacement = ''[REDACTED]'', includeDefaults = False\<rparr>"


definition tagStore :: store where
  "tagStore = [[(''token'', ''abc''), (''other'', ''ok'')], []]"

definition removeThenReplace :: Scrubber where
  "removeThenReplace =
     \<lparr>rules =
        [\<lparr>Name = ''drop'', Match = Some (\<lambda>ctx. Key ctx = ''a''),
           Apply = Some RemoveValue, Continue = True\<rparr>,
         \<lparr>Name = ''fill'', Match = Some (\<lambda>ctx. Key ctx = ''a''),
           Apply = Some (ReplaceWith ''x''), Continue = False\<rparr>],
      defaultReplacement = ''[REDACTED]'', includeDefaults = False\<rparr>"

definition dropSecret :: Scrubber where
  "dropSecret =
     \<lparr>rules = [NewRule ''drop'' (Some (\<lambda>ctx. Key ctx = ''secret'')) (Some RemoveValue)],
      defaultReplacement = ''[REDACTED]'', includeDefaults = False\<rparr>"

text \<open>
  Three rules on the value of a field: A turns \<open>0\<close> into \<open>1\<close> and chains, B matches
  \<open>0\<close>, C matches \<open>1\<close>. Then a rule on the path \<open>a.b\<close>, a rule without a matcher, and
  a JSON codec that cannot encode.
\<close>

definition relayScrubber :: Scrubber where
  "relayScrubber =
     \<lparr>rules =
        [\<lparr>Name = ''A'', Match = Some (\<lambda>ctx. Value ctx = VStr ''0''),
           Apply = Some (ReplaceWith ''1''), Continue = True\<rparr>,
         \<lparr>Name = ''B'', Match = Some (\<lambda>ctx. Value ctx = VStr ''0''),
           Apply = Some (ReplaceWith ''2''), Continue = False\<rparr>,
         \<lparr>Name = ''C'', Match = Some (\<lambda>ctx. Value ctx = VStr ''1''),
           Apply = Some (ReplaceWith ''3''), Continue = False\<rparr>],
      defaultReplacement = ''[REDACTED]'', includeDefaults = False\<rparr>"

definition pathScrubber :: Scrubber where
  "pathScrubber =
     \<lparr>rules = [NewRule ''ab'' (Some (\<lambda>ctx. Path ctx = [''a'', ''b''])) (Some (ReplaceWith ''x''))],
      defaultReplacement = ''[REDACTED]'', includeDefaults = False\<rparr>"

definition everyField :: Scrubber where
  "everyField =
     \<lparr>rules = [NewRule ''all'' None (Some (ReplaceWith ''x''))],
      defaultReplacement = ''[REDACTED]'', includeDefaults = False\<rparr>"


section \<open>Construction: the order of the rule list\<close>

lemma applyOptions_WithRules:
  "applyOptions (map (\<lambda>rs. Some (WithRules rs)) rss) s = s\<lparr>rules := rules s @ concat rss\<rparr>"
  by (induction rss arbitrary: s) (simp_all add: WithRules_def)

text \<open>
  C1, as stated, fails: with one caller-supplied rule the built-in rule is not the first
  element of the rule list. \<open>NewScrubber\<close> runs the options first and appends the
  built-in rule afterwards.
\<close>

theorem NewScrubber_default_first_counterexample:
  "rules (NewScrubber exampleLib [Some (WithRules [NewRule ''mine'' None None])])
     \<noteq> defaultSensitiveRules exampleLib ''[REDACTED]'' @ [NewRule ''mine'' None None]"
proof
  assume "rules (NewScrubber exampleLib [Some (WithRules [NewRule ''mine'' None None])])
     = defaultSensitiveRules exampleLib ''[REDACTED]'' @ [NewRule ''mine'' None None]"
  then have "map Name (rules (NewScrubber exampleLib [Some (WithRules [NewRule ''mine'' None None])]))
     = map Name (defaultSensitiveRules exampleLib ''[REDACTED]'' @ [NewRule ''mine'' None None])"
    by (rule arg_cong)
  then show False
    by (simp add: NewScrubber_def WithRules_def NewRule_def defaultSensitiveRules_def)
qed

text \<open>
  C1, amended: for every Scrubber built by \<open>NewScrubber\<close> with \<open>includeDefaults\<close> left
  true and caller-supplied rules given through \<open>WithRules\<close> options, the rule list is the
  caller-supplied rules in their given order followed by the single built-in
  sensitive-key rule as its last element; the built-in rule carries the default
  replacement, or the non-empty one set by \<open>WithDefaultReplacement\<close>.
\<close>

theorem NewScrubber_rules_order:
  "rules (NewScrubber L (map (\<lambda>rs. Some (WithRules rs)) rss))
     = concat rss @ defaultSensitiveRules L ''[REDACTED]''
   \<and> rules (NewScrubber L (Some (WithDefaultReplacement r) # map (\<lambda>rs. Some (WithRules rs)) rss))
     = concat rss @ defaultSensitiveRules L (if r = [] then ''[REDACTED]'' else r)"
  by (simp add: NewScrubber_def applyOptions_WithRules WithDefaultReplacement_def)

section \<open>Rule application at a node\<close>

lemma applyLoop_skip:
  "list_all (\<lambda>q. \<not> fires q ctx current) pre \<Longrightarrow>
     applyLoop (pre @ rest) ctx current matched = applyLoop rest ctx current matched"
  by (induction pre) (auto simp: fires_def split: option.splits)

lemma applyLoop_fire:
  "fires r ctx current \<Longrightarrow>
     applyLoop (r # post) ctx current matched =
       (let v = the (Apply r) \<lparr>Path = Path ctx, Key = Key ctx, Value = current\<rparr>
        in if Continue r then applyLoop post ctx v True else (v, True))"
  by (auto simp: fires_def Let_def split: option.splits)

lemma applyLoop_matched: "snd (applyLoop rs ctx current True) = True"
  by (induction rs arbitrary: current) (auto simp: Let_def split: option.splits)

lemma foldl_stopped: "stopped st \<Longrightarrow> foldl (specStep ctx) st rs = st"
  by (induction rs) (simp_all add: specStep_def)

lemma applyLoop_evaluateFrom:
  "applyLoop rs ctx current matched
     = (working (evaluateFrom rs ctx current matched),
        anyMatched (evaluateFrom rs ctx current matched))"
proof (induction rs arbitrary: current matched)
  case Nil
  then show ?case by (simp add: evaluateFrom_def)
next
  case (Cons rule rest)
  show ?case
  proof (cases "fires rule ctx current")
    case False
    then have "applyLoop (rule # rest) ctx current matched = applyLoop rest ctx current matched"
      by (auto simp: fires_def split: option.splits)
    moreover have "evaluateFrom (rule # rest) ctx current matched
        = evaluateFrom rest ctx current matched"
      using False by (simp add: evaluateFrom_def specStep_def)
    ultimately show ?thesis
      using Cons.IH by simp
  next
    case True
    let ?v = "the (Apply rule) \<lparr>Path = Path ctx, Key = Key ctx, Value = current\<rparr>"
    show ?thesis
    proof (cases "Continue rule")
      case c: True
      have "applyLoop (rule # rest) ctx current matched = applyLoop rest ctx ?v True"
        using True c by (auto simp: fires_def Let_def split: option.splits)
      moreover have "evaluateFrom (rule # rest) ctx current matched = evaluateFrom rest ctx ?v True"
        using True c by (simp add: evaluateFrom_def specStep_def)
      ultimately show ?thesis
        using Cons.IH by simp
    next
      case c: False
      have "applyLoop (rule # rest) ctx current matched = (?v, True)"
        using True c by (auto simp: fires_def Let_def split: option.splits)
      moreover have "evaluateFrom (rule # rest) ctx current matched
          = \<lparr>working = ?v, anyMatched = True, stopped = True\<rparr>"
        using True c by (simp add: evaluateFrom_def specStep_def foldl_stopped)
      ultimately show ?thesis
        by simp
    qed
  qed
qed

lemma evaluateFrom_skip:
  "list_all (\<lambda>q. \<not> fires q ctx current) pre \<Longrightarrow>
     evaluateFrom (pre @ rest) ctx current matched = evaluateFrom rest ctx current matched"
  by (induction pre) (simp_all add: evaluateFrom_def specStep_def)

lemma evaluateFrom_matched: "anyMatched (evaluateFrom rs ctx current True)"
proof -
  have "anyMatched st \<Longrightarrow> anyMatched (foldl (specStep ctx) st rs)" for st
    by (induction rs arbitrary: st) (simp_all add: specStep_def)
  then show ?thesis
    by (simp add: evaluateFrom_def)
qed

text \<open>
  C4: rule evaluation at a node is the evaluation in list order over the working value
  that the specification describes, from every working value and either state of the
  match flag: the code's loop and \<open>evaluateInOrder\<close> agree. When no rule fires no match is
  reported. Otherwise the rules before the first one that fires leave the value alone;
  that rule replaces the working value by its transform's output; with its chain flag
  false evaluation stops there, whatever the later rules are, and with its chain flag
  true the later rules are evaluated in order on the transformed value.
\<close>

theorem applyRules_order_and_chain:
  "applyRules s ctx = evaluateInOrder (rules s) ctx
   \<and> applyLoop rs ctx current matched
       = (working (evaluateFrom rs ctx current matched),
          anyMatched (evaluateFrom rs ctx current matched))
   \<and> (list_all (\<lambda>q. \<not> fires q ctx (Value ctx)) (rules s) \<longrightarrow> applyRules s ctx = (VNil, False))
   \<and> (rules s = pre @ r # post \<longrightarrow> list_all (\<lambda>q. \<not> fires q ctx (Value ctx)) pre \<longrightarrow>
        fires r ctx (Value ctx) \<longrightarrow>
        applyRules s ctx =
          (let v = the (Apply r) \<lparr>Path = Path ctx, Key = Key ctx, Value = Value ctx\<rparr>
           in if Continue r then (working (evaluateFrom post ctx v True), True) else (v, True)))"
proof -
  have eq: "applyRules s ctx = evaluateInOrder (rules s) ctx" for s
    by (simp add: applyRules_def evaluateInOrder_def applyLoop_evaluateFrom Let_def)
  have none: "applyRules s ctx = (VNil, False)"
    if "list_all (\<lambda>q. \<not> fires q ctx (Value ctx)) (rules s)"
    using evaluateFrom_skip [OF that, of "[]" False]
    by (simp add: eq evaluateInOrder_def evaluateFrom_def)
  have first: "applyRules s ctx =
          (let v = the (Apply r) \<lparr>Path = Path ctx, Key = Key ctx, Value = Value ctx\<rparr>
           in if Continue r then (working (evaluateFrom post ctx v True), True) else (v, True))"
    if r: "rules s = pre @ r # post" and p: "list_all (\<lambda>q. \<not> fires q ctx (Value ctx)) pre"
      and f: "fires r ctx (Value ctx)"
  proof -
    let ?v = "the (Apply r) \<lparr>Path = Path ctx, Key = Key ctx, Value = Value ctx\<rparr>"
    have "evaluateFrom (rules s) ctx (Value ctx) False = evaluateFrom (r # post) ctx (Value ctx) False"
      using r evaluateFrom_skip [OF p] by simp
    also have "\<dots> = (if Continue r then evaluateFrom post ctx ?v True
                     else \<lparr>working = ?v, anyMatched = True, stopped = True\<rparr>)"
      using f by (simp add: evaluateFrom_def specStep_def foldl_stopped)
    finally show ?thesis
      using evaluateFrom_matched [of post ctx ?v]
      by (simp add: eq evaluateInOrder_def Let_def)
  qed
  from eq applyLoop_evaluateFrom none first show ?thesis
    by blast
qed

text \<open>
  The example of C4 on a field named \<open>a\<close>: with the chain flag of R1 set the field ends
  as \<open>y\<close>, without it as \<open>x\<close>. With the three rules A, B, C a field holding \<open>0\<close> ends
  as \<open>3\<close>: B is asked about the value A has produced and rejects it, and C fires on it.
\<close>

theorem applyRules_order_and_chain_witness:
  "applyRules (chainScrubber True) \<lparr>Path = [''a''], Key = ''a'', Value = VStr ''v''\<rparr>
     = (VStr ''y'', True)
   \<and> applyRules (chainScrubber False) \<lparr>Path = [''a''], Key = ''a'', Value = VStr ''v''\<rparr>
     = (VStr ''x'', True)
   \<and> applyRules relayScrubber \<lparr>Path = [''n''], Key = ''n'', Value = VStr ''0''\<rparr>
     = (VStr ''3'', True)"
  using
    applyRules_order_and_chain [of "chainScrubber True"
      "\<lparr>Path = [''a''], Key = ''a'', Value = VStr ''v''\<rparr>" _ _ _ "[]" "R1 True" "[R2]"]
    applyRules_order_and_chain [of "chainScrubber False"
      "\<lparr>Path = [''a''], Key = ''a'', Value = VStr ''v''\<rparr>" _ _ _ "[]" "R1 False" "[R2]"]
    applyRules_order_and_chain [of relayScrubber
      "\<lparr>Path = [''n''], Key = ''n'', Value = VStr ''0''\<rparr>"]
  by (simp add: chainScrubber_def relayScrubber_def fires_def R1_def R2_def ReplaceWith_def
      evaluateInOrder_def evaluateFrom_def specStep_def)

lemma chain_example_field:
  "Scrub (Some (chainScrubber True)) (VObj [(''a'', v)]) = VObj [(''a'', VStr ''y'')]
   \<and> Scrub (Some (chainScrubber False)) (VObj [(''a'', v)]) = VObj [(''a'', VStr ''x'')]"
  by (simp add: Scrub_def applyRules_def chainScrubber_def R1_def R2_def ReplaceWith_def)

section \<open>The map branches entry by entry\<close>

lemma scrub_VStrMap_keys:
  "\<exists>kvs'. scrubValue s (VStrMap kvs) path = VStrMap kvs' \<and> map fst kvs' = map fst kvs
      \<and> (\<forall>i<length kvs. kvs' ! i =
            (case kvs ! i of (k, v) \<Rightarrow>
               (case applyRules s \<lparr>Path = path @ [k], Key = k, Value = VStr v\<rparr> of
                  (replaced, ok) \<Rightarrow> if ok then (k, toString replaced) else (k, v))))"
proof -
  let ?f = "\<lambda>(k, val).
       let currentPath = path @ [k];
           ctx = \<lparr>Path = currentPath, Key = k, Value = VStr val\<rparr>
       in case applyRules s ctx of
            (replaced, ok) \<Rightarrow>
              if ok then (k, toString replaced)
              else (k, toString (scrubValue s (VStr val) currentPath))"
  have 1: "scrubValue s (VStrMap kvs) path = VStrMap (map ?f kvs)"
    by simp
  have 2: "map fst (map ?f kvs) = map fst kvs"
    by (induction kvs) (auto simp: Let_def split: prod.splits)
  have 3: "map ?f kvs ! i = (case kvs ! i of (k, v) \<Rightarrow>
               (case applyRules s \<lparr>Path = path @ [k], Key = k, Value = VStr v\<rparr> of
                  (replaced, ok) \<Rightarrow> if ok then (k, toString replaced) else (k, v)))"
    if "i < length kvs" for i
    using that by (auto simp: Let_def toString_def split: prod.splits)
  from 1 2 3 show ?thesis by blast
qed

lemma scrub_VObj_keys:
  "\<exists>kvs'. scrubValue s (VObj kvs) path = VObj kvs' \<and> map fst kvs' = map fst kvs
      \<and> (\<forall>i<length kvs. kvs' ! i =
            (case kvs ! i of (k, v) \<Rightarrow>
               (case applyRules s \<lparr>Path = path @ [k], Key = k, Value = v\<rparr> of
                  (replaced, ok) \<Rightarrow> if ok then (k, replaced)
                                  else (k, scrubValue s v (path @ [k])))))"
proof -
  let ?f = "\<lambda>(k, val).
       let currentPath = path @ [k];
           ctx = \<lparr>Path = currentPath, Key = k, Value = val\<rparr>
       in case applyRules s ctx of
            (replaced, ok) \<Rightarrow>
              if ok then (k, replaced) else (k, scrubValue s val currentPath)"
  have 1: "scrubValue s (VObj kvs) path = VObj (map ?f kvs)"
    by simp
  have 2: "map fst (map ?f kvs) = map fst kvs"
    by (induction kvs) (auto simp: Let_def split: prod.splits)
  have 3: "map ?f kvs ! i = (case kvs ! i of (k, v) \<Rightarrow>
               (case applyRules s \<lparr>Path = path @ [k], Key = k, Value = v\<rparr> of
                  (replaced, ok) \<Rightarrow> if ok then (k, replaced)
                                  else (k, scrubValue s v (path @ [k]))))"
    if "i < length kvs" for i
    using that by (auto simp: Let_def split: prod.splits)
  from 1 2 3 show ?thesis by blast
qed

lemma scrubValue_leaf: "isLeaf v \<Longrightarrow> scrubValue s v path = v"
  by (cases v) simp_all

section \<open>Lists of arbitrary values\<close>

text \<open>
  C8: on a \<open>[]any\<close> the output is a list of the same length whose elements are the
  traversals of the input's elements with the path of the list itself. No rule is
  evaluated for an element: an element that is a leaf comes back as it is, whatever the
  rules. An element that is an object has each of its fields evaluated at the path of
  the list extended by the field's key alone, with no index segment.
\<close>

theorem list_elements_same_path:
  "\<exists>ys. scrubValue s (VList xs) path = VList ys \<and> length ys = length xs
      \<and> (\<forall>i<length xs.
            ys ! i = scrubValue s (xs ! i) path
            \<and> (isLeaf (xs ! i) \<longrightarrow> ys ! i = xs ! i)
            \<and> (\<forall>kvs. xs ! i = VObj kvs \<longrightarrow>
                 (\<exists>kvs'. ys ! i = VObj kvs' \<and> map fst kvs' = map fst kvs
                    \<and> (\<forall>j<length kvs. kvs' ! j =
                         (case kvs ! j of (k, v) \<Rightarrow>
                            (case applyRules s \<lparr>Path = path @ [k], Key = k, Value = v\<rparr> of
                               (replaced, ok) \<Rightarrow>
                                 if ok then (k, replaced)
                                 else (k, scrubValue s v (path @ [k])))))))
            \<and> (\<forall>zs. xs ! i = VList zs \<longrightarrow>
                 (\<exists>zs'. ys ! i = VList zs' \<and> length zs' = length zs)))"
proof -
  let ?ys = "map (\<lambda>x. scrubValue s x path) xs"
  have 1: "scrubValue s (VList xs) path = VList ?ys"
    by simp
  have 2: "length ?ys = length xs"
    by simp
  have 3: "?ys ! i = scrubValue s (xs ! i) path" if "i < length xs" for i
    using that by simp
  have 4: "?ys ! i = xs ! i" if "i < length xs" "isLeaf (xs ! i)" for i
    using that by (simp add: scrubValue_leaf)
  have 5: "\<exists>kvs'. ?ys ! i = VObj kvs' \<and> map fst kvs' = map fst kvs
                    \<and> (\<forall>j<length kvs. kvs' ! j =
                         (case kvs ! j of (k, v) \<Rightarrow>
                            (case applyRules s \<lparr>Path = path @ [k], Key = k, Value = v\<rparr> of
                               (replaced, ok) \<Rightarrow>
                                 if ok then (k, replaced)
                                 else (k, scrubValue s v (path @ [k])))))"
    if "i < length xs" "xs ! i = VObj kvs" for i kvs
    using that scrub_VObj_keys [of s kvs path] by (simp del: scrubValue.simps)
  have 6: "\<exists>zs'. ?ys ! i = VList zs' \<and> length zs' = length zs"
    if "i < length xs" "xs ! i = VList zs" for i zs
    using that by simp
  from 1 2 3 4 5 6 show ?thesis
    by blast
qed

text \<open>
  A rule on the path \<open>a.b\<close> fires on the field \<open>b\<close> of an object inside the list at
  \<open>a\<close>; a rule that matches every field leaves the elements of a \<open>[]any\<close> alone and
  replaces those of a \<open>[]string\<close>.
\<close>

theorem list_elements_same_path_witness:
  "(\<exists>ys kvs'. scrubValue pathScrubber (VList [VObj [(''b'', VInt 1)], VStr ''s'']) [''a'']
                 = VList ys
        \<and> length ys = 2 \<and> ys ! 0 = VObj kvs' \<and> kvs' ! 0 = (''b'', VStr ''x'')
        \<and> ys ! 1 = VStr ''s'')
   \<and> (\<exists>ys. scrubValue everyField (VList [VStr ''p'', VInt 2]) [] = VList ys
        \<and> ys ! 0 = VStr ''p'' \<and> ys ! 1 = VInt 2)
   \<and> scrubValue everyField (VStrList [''p'']) [] = VStrList [''x'']"
proof -
  let ?xs = "[VObj [(''b'', VInt 1)], VStr ''s'']"
  obtain ys where ys: "scrubValue pathScrubber (VList ?xs) [''a''] = VList ys"
    and len: "length ys = length ?xs"
    and el: "\<forall>i<length ?xs.
            ys ! i = scrubValue pathScrubber (?xs ! i) [''a'']
            \<and> (isLeaf (?xs ! i) \<longrightarrow> ys ! i = ?xs ! i)
            \<and> (\<forall>kvs. ?xs ! i = VObj kvs \<longrightarrow>
                 (\<exists>kvs'. ys ! i = VObj kvs' \<and> map fst kvs' = map fst kvs
                    \<and> (\<forall>j<length kvs. kvs' ! j =
                         (case kvs ! j of (k, v) \<Rightarrow>
                            (case applyRules pathScrubber \<lparr>Path = [''a''] @ [k], Key = k, Value = v\<rparr> of
                               (replaced, ok) \<Rightarrow>
                                 if ok then (k, replaced)
                                 else (k, scrubValue pathScrubber v ([''a''] @ [k])))))))
            \<and> (\<forall>zs. ?xs ! i = VList zs \<longrightarrow>
                 (\<exists>zs'. ys ! i = VList zs' \<and> length zs' = length zs))"
    using list_elements_same_path [of pathScrubber ?xs "[''a'']"] by blast
  have ar: "applyRules pathScrubber \<lparr>Path = [''a''] @ [''b''], Key = ''b'', Value = VInt 1\<rparr>
              = (VStr ''x'', True)"
    by (simp add: applyRules_def pathScrubber_def NewRule_def ReplaceWith_def)
  from el [rule_format, of 0] obtain kvs' where
    k: "ys ! 0 = VObj kvs'"
    and kj: "\<forall>j<length [(''b'', VInt 1)]. kvs' ! j =
                         (case [(''b'', VInt 1)] ! j of (k, v) \<Rightarrow>
                            (case applyRules pathScrubber \<lparr>Path = [''a''] @ [k], Key = k, Value = v\<rparr> of
                               (replaced, ok) \<Rightarrow>
                                 if ok then (k, replaced)
                                 else (k, scrubValue pathScrubber v ([''a''] @ [k]))))"
    by auto
  from kj [rule_format, of 0] ar have k0: "kvs' ! 0 = (''b'', VStr ''x'')"
    by simp
  from el [rule_format, of 1] have y1: "ys ! 1 = VStr ''s''"
    by simp
  have first: "\<exists>ys kvs'. scrubValue pathScrubber (VList ?xs) [''a''] = VList ys
        \<and> length ys = 2 \<and> ys ! 0 = VObj kvs' \<and> kvs' ! 0 = (''b'', VStr ''x'')
        \<and> ys ! 1 = VStr ''s''"
    using ys len k k0 y1 by auto
  obtain zs where zs: "scrubValue everyField (VList [VStr ''p'', VInt 2]) [] = VList zs"
    and zl: "\<forall>i<length [VStr ''p'', VInt 2].
               (isLeaf ([VStr ''p'', VInt 2] ! i) \<longrightarrow> zs ! i = [VStr ''p'', VInt 2] ! i)"
    using list_elements_same_path [of everyField "[VStr ''p'', VInt 2]" "[]"] by blast
  from zl [rule_format, of 0] zl [rule_format, of 1] have "zs ! 0 = VStr ''p''" "zs ! 1 = VInt 2"
    by simp_all
  with zs have second: "\<exists>ys. scrubValue everyField (VList [VStr ''p'', VInt 2]) [] = VList ys
        \<and> ys ! 0 = VStr ''p'' \<and> ys ! 1 = VInt 2"
    by blast
  have third: "scrubValue everyField (VStrList [''p'']) [] = VStrList [''x'']"
    by (simp add: applyRules_def everyField_def NewRule_def ReplaceWith_def toString_def)
  from first second third show ?thesis
    by blast
qed

section \<open>Nil matchers, nil receivers, nil expressions\<close>

text \<open>
  C7, as stated, fails on its first part: a rule whose matcher is nil and whose transform
  is \<open>ReplaceWith\<close> fires on a field and records a match. The loop skips a rule only when
  its matcher is not nil and rejects the field.
\<close>

theorem nil_matcher_fires_counterexample:
  "applyRules
     \<lparr>rules = [NewRule ''r'' None (Some (ReplaceWith ''x''))],
      defaultReplacement = ''[REDACTED]'', includeDefaults = False\<rparr>
     \<lparr>Path = [''k''], Key = ''k'', Value = VStr ''v''\<rparr>
   = (VStr ''x'', True)"
  by (simp add: applyRules_def NewRule_def ReplaceWith_def)

text \<open>
  C7, amended: for every FieldContext, a rule whose matcher is nil is treated as matching
  (with a transform it fires on every field, exactly as the same rule with a matcher that
  is always true); a nil Scrubber receiver passes every input of \<open>Scrub\<close> through
  unchanged and makes \<open>ScrubJSON\<close> return the bytes of its input (the nil slice for an
  input without bytes) and no error; and a key or value regular-expression matcher
  built from a nil compiled expression returns false for every context.
\<close>

theorem nil_handling:
  "applyLoop (\<lparr>Name = n, Match = None, Apply = Some f, Continue = c\<rparr> # rest) ctx current matched
     = (if c then applyLoop rest ctx (f \<lparr>Path = Path ctx, Key = Key ctx, Value = current\<rparr>) True
        else (f \<lparr>Path = Path ctx, Key = Key ctx, Value = current\<rparr>, True))
   \<and> applyLoop (\<lparr>Name = n, Match = None, Apply = a, Continue = c\<rparr> # rest) ctx current matched
     = applyLoop (\<lparr>Name = n, Match = Some (\<lambda>ctx. True), Apply = a, Continue = c\<rparr> # rest)
         ctx current matched
   \<and> applyRules
         \<lparr>rules = \<lparr>Name = n, Match = None, Apply = Some f, Continue = False\<rparr> # rest,
          defaultReplacement = d, includeDefaults = b\<rparr> ctx
     = (f \<lparr>Path = Path ctx, Key = Key ctx, Value = Value ctx\<rparr>, True)
   \<and> Scrub None v = v
   \<and> ScrubJSON L None data = (copyBytes data, None)
   \<and> bytesOf (copyBytes data) = data
   \<and> MatchKeyRegexp None ctx = False
   \<and> MatchValueRegexp None ctx = False"
  by (cases a)
    (simp_all add: applyRules_def Scrub_def ScrubJSON_def copyBytes_def bytesOf_def
      MatchKeyRegexp_def MatchValueRegexp_def Let_def)

section \<open>MaskString\<close>

lemma sint_add_nowrap:
  fixes a b :: "64 word"
  assumes "0 \<le> sint a" "0 \<le> sint b" "sint a + sint b < 2 ^ 63"
  shows "sint (a + b) = sint a + sint b"
proof -
  have "sint (a + b) = signed_take_bit 63 (sint a + sint b)"
    by (simp add: sint_word_add)
  also have "\<dots> = sint a + sint b"
    using assms by (intro signed_take_bit_int_eq_self) simp_all
  finally show ?thesis .
qed

lemma unat_nonneg:
  fixes a :: "64 word"
  assumes "0 \<le> sint a"
  shows "unat a = nat (sint a)"
proof -
  have "sint a < 2 ^ 63"
    using sint_lt [of a] by simp
  then have "sint a < 2 ^ 64"
    by simp
  then have "take_bit 64 (sint a) = sint a"
    using assms by (simp add: take_bit_int_eq_self)
  then have "uint a = sint a"
    using uint_sint [of a] by simp
  then show ?thesis
    by (simp only: unat_eq_nat_uint)
qed

lemma runesOf_nonempty: "v \<noteq> [] \<Longrightarrow> runesOf v \<noteq> []"
  by (cases v) (auto split: prod.splits)

lemma stringOfRunes_Nil: "stringOfRunes [] = []"
  by (simp add: stringOfRunes_def)

text \<open>
  C5, as stated, fails: with the zero rune as mask character the output repeats \<open>*\<close>,
  not the mask character. \<open>MaskString\<close> replaces a zero mask by \<open>*\<close> before it builds
  the transform.
\<close>

theorem mask_zero_counterexample:
  "MaskString 0 0 0 \<lparr>Path = [''k''], Key = ''k'', Value = VStr ''a''\<rparr> = Inr (VStr ''*'')
   \<and> MaskString 0 0 0 \<lparr>Path = [''k''], Key = ''k'', Value = VStr ''a''\<rparr>
       \<noteq> Inr (VStr (Repeat (encodeRune 0) (length (runesOf ''a''))))"
  by code_simp

text \<open>
  When the clamped \<open>keepStart\<close> and \<open>keepEnd\<close> add up beyond the range of \<open>int\<close>, the sum
  wraps to a negative number, the test against the length fails and the slice
  expression panics.
\<close>

lemma mask_overflow_panics:
  "MaskString 0x2A 0x7FFFFFFFFFFFFFFF 0x7FFFFFFFFFFFFFFF
     \<lparr>Path = [''k''], Key = ''k'', Value = VStr ''abc''\<rparr> = Inl RuntimePanic"
  by code_simp

text \<open>
  C5, amended: for every string value with \<open>len\<close> code points, with \<open>ks\<close> and \<open>ke\<close> the
  parameters \<open>keepStart\<close> and \<open>keepEnd\<close> clamped to zero from below and adding up within
  the range of \<open>int\<close>, and with \<open>m\<close> the mask character, which is \<open>*\<close> when the given
  mask is the zero rune: if \<open>ks + ke \<ge> len\<close>, \<open>MaskString\<close> returns \<open>len\<close> repetitions of
  \<open>m\<close>; otherwise it returns the first \<open>ks\<close> and the last \<open>ke\<close> code points with
  \<open>len - ks - ke\<close> repetitions of \<open>m\<close> in between. In particular \<open>MaskString('*', 0, 4)\<close>
  applied to \<open>1234567890\<close> yields \<open>******7890\<close>.
\<close>

theorem MaskString_result:
  assumes v: "Value ctx = VStr v"
    and ks: "ks = max 0 (sint keepStart)"
    and ke: "ke = max 0 (sint keepEnd)"
    and nowrap: "ks + ke < 2 ^ 63"
    and len: "len = int (length (runesOf v))"
    and m: "m = encodeRune (if maskRune = 0 then 0x2A else maskRune)"
  shows "MaskString maskRune keepStart keepEnd ctx =
           Inr (VStr (if ks + ke \<ge> len then Repeat m (nat len)
                      else stringOfRunes (take (nat ks) (runesOf v))
                           @ Repeat m (nat (len - ks - ke))
                           @ stringOfRunes (drop (nat (len - ke)) (runesOf v))))"
proof -
  define a :: "64 word" where "a = (if sint keepStart < 0 then 0 else keepStart)"
  define b :: "64 word" where "b = (if sint keepEnd < 0 then 0 else keepEnd)"
  have sa: "sint a = ks" unfolding a_def ks by (simp add: max_def)
  have sb: "sint b = ke" unfolding b_def ke by (simp add: max_def)
  have ks0: "0 \<le> ks" and ke0: "0 \<le> ke" using ks ke by simp_all
  have sab: "sint (a + b) = ks + ke"
    using sint_add_nowrap [of a b] sa sb ks0 ke0 nowrap by simp
  have ua: "unat a = nat ks"
    using unat_nonneg [of a] sa ks0 by simp
  have unfold: "MaskString maskRune keepStart keepEnd ctx =
      (if v = [] then Inr (VStr v)
       else if len = 0 then Inr (VStr v)
       else if sint (a + b) \<ge> len then Inr (VStr (Repeat m (nat len)))
       else if 0 < sint a \<and> len < sint a then Inl RuntimePanic
       else if len - sint a - sint b < 0 then Inl RuntimePanic
       else if 0 < sint b \<and> len - sint b < 0 then Inl RuntimePanic
       else Inr (VStr ((if 0 < sint a then stringOfRunes (take (unat a) (runesOf v)) else [])
                       @ Repeat m (nat (len - sint a - sint b))
                       @ (if 0 < sint b then stringOfRunes (drop (nat (len - sint b)) (runesOf v))
                          else []))))"
    unfolding MaskString_def a_def b_def using v len m by (simp add: Let_def)
  show ?thesis
  proof (cases "v = []")
    case True
    then show ?thesis
      unfolding unfold using len ks0 ke0 by (simp add: Repeat_def)
  next
    case False
    then have lpos: "0 < len"
      using runesOf_nonempty [of v] len by simp
    show ?thesis
    proof (cases "ks + ke \<ge> len")
      case True
      then show ?thesis
        unfolding unfold using False lpos sab by simp
    next
      case small: False
      have all: "drop (nat len) (runesOf v) = []"
        using len by simp
      show ?thesis
        unfolding unfold using False lpos small ks0 ke0
        by (simp add: sab sa sb ua stringOfRunes_Nil all)
    qed
  qed
qed

theorem MaskString_result_witness:
  "MaskString 0x2A 0 4 \<lparr>Path = [''card''], Key = ''card'', Value = VStr ''1234567890''\<rparr>
     = Inr (VStr ''******7890'')"
proof -
  have r: "runesOf ''1234567890'' = [49, 50, 51, 52, 53, 54, 55, 56, 57, 48]"
    by code_simp
  have l: "(10::int) = int (length (runesOf ''1234567890''))"
    unfolding r by simp
  have m: "''*'' = encodeRune (if (0x2A::int) = 0 then 0x2A else 0x2A)"
    by code_simp
  have ks: "(0::int) = max 0 (sint (0::64 word))"
    by simp
  have ke: "(4::int) = max 0 (sint (4::64 word))"
    by simp
  have tl: "stringOfRunes [55, 56, 57, 48] = ''7890''"
    by code_simp
  have rp: "Repeat ''*'' 6 = ''******''"
    by code_simp
  have "MaskString 0x2A 0 4 \<lparr>Path = [''card''], Key = ''card'', Value = VStr ''1234567890''\<rparr>
      = Inr (VStr (if (0::int) + 4 \<ge> 10 then Repeat ''*'' (nat 10)
                   else stringOfRunes (take (nat 0) (runesOf ''1234567890''))
                        @ Repeat ''*'' (nat (10 - 0 - 4))
                        @ stringOfRunes (drop (nat (10 - 4)) (runesOf ''1234567890''))))"
    by (rule MaskString_result [OF _ ks ke _ l m]) simp_all
  then show ?thesis
    unfolding r using stringOfRunes_Nil by (simp add: tl rp)
qed

text \<open>
  On an ASCII string the code points are the bytes, so the parts that \<open>MaskString\<close>
  keeps are the first and last bytes of the input, verbatim.
\<close>

lemma runesOf_ascii: "isASCII v \<Longrightarrow> runesOf v = map (\<lambda>c. int (byte c)) v"
  by (induction v) (simp_all add: isASCII_def Let_def)

lemma encodeRune_ascii: "byte c < 0x80 \<Longrightarrow> encodeRune (int (byte c)) = [c]"
  by (simp add: encodeRune_def byte_def Let_def)

lemma stringOfRunes_ascii:
  "isASCII v \<Longrightarrow> stringOfRunes (map (\<lambda>c. int (byte c)) v) = v"
  by (induction v) (simp_all add: isASCII_def stringOfRunes_def encodeRune_ascii)

lemma ascii_slices_verbatim:
  assumes "isASCII v"
  shows "stringOfRunes (take n (runesOf v)) = take n v"
    and "stringOfRunes (drop n (runesOf v)) = drop n v"
proof -
  have t: "isASCII (take n v)" and d: "isASCII (drop n v)"
    using assms by (auto simp: isASCII_def list_all_iff dest: in_set_takeD in_set_dropD)
  show "stringOfRunes (take n (runesOf v)) = take n v"
    using stringOfRunes_ascii [OF t] by (simp add: runesOf_ascii [OF assms] take_map)
  show "stringOfRunes (drop n (runesOf v)) = drop n v"
    using stringOfRunes_ascii [OF d] by (simp add: runesOf_ascii [OF assms] drop_map)
qed

section \<open>ScrubJSON\<close>




section \<open>The default rule set\<close>

lemma normalizeKeys_defaultVocabulary: "normalizeKeys L defaultVocabulary = defaultVocabulary"
  by code_simp

lemma default_matcher: "MatchKeyInsensitive L defaultVocabulary ctx = sensitiveKey L (Key ctx)"
  by (simp add: MatchKeyInsensitive_def normalizeKeys_defaultVocabulary sensitiveKey_def
      list_ex_iff Let_def)

lemma default_applyRules:
  "rules s = defaultSensitiveRules L repl \<Longrightarrow>
     applyRules s ctx = (if sensitiveKey L (Key ctx) then (VStr repl, True) else (VNil, False))"
  by (simp add: applyRules_def defaultSensitiveRules_def default_matcher ReplaceWith_def Let_def)

lemma byte_digit: "(k::nat) < 10 \<Longrightarrow> byte (char_of (48 + k)) < 0x80"
  by (simp add: byte_def)

lemma digits_ascii: "isASCII (digits n)"
proof (induction n rule: digits.induct)
  case (1 n)
  show ?case
  proof (cases "n < 10")
    case True
    then show ?thesis
      by (subst digits.simps) (simp add: isASCII_def byte_digit)
  next
    case False
    have "n mod 10 < 10" by simp
    then have "byte (char_of (48 + n mod 10)) < 0x80" by (rule byte_digit)
    with False 1 show ?thesis
      by (subst digits.simps) (simp add: isASCII_def)
  qed
qed

lemma indexSegment_not_sensitive: "\<not> sensitiveKey L (indexSegment i)"
proof -
  have "isASCII (indexSegment i)"
    using digits_ascii [of i] by (simp add: indexSegment_def isASCII_def byte_def)
  then have "ToLower L (indexSegment i) = CHR ''['' # map lowerByte (digits i @ '']'')"
    by (simp add: ToLower_def indexSegment_def lowerByte_def byte_def)
  then show ?thesis
    by (simp add: sensitiveKey_def defaultVocabulary_def)
qed

lemma toString_VStr: "toString (VStr x) = x"
  by (simp add: toString_def)

lemma map_snd_enumerate: "map (\<lambda>(i, item). item) (enumerate n xs) = xs"
  by (induction xs arbitrary: n) simp_all

lemma toStringSlice_VStr:
  "toStringSlice (VStr x) n = (if n = 0 then [x] else replicate n x)"
  by (simp add: toStringSlice_def)

lemma default_VObj:
  "rules s = defaultSensitiveRules L repl \<Longrightarrow>
     scrubValue s (VObj v) path =
       VObj (map (\<lambda>(k, val). if sensitiveKey L k then (k, VStr repl)
                               else (k, scrubValue s val (path @ [k]))) v)"
  by (auto simp: default_applyRules Let_def)

lemma default_VStrMap:
  "rules s = defaultSensitiveRules L repl \<Longrightarrow>
     scrubValue s (VStrMap v) path =
       VStrMap (map (\<lambda>(k, val). if sensitiveKey L k then (k, repl) else (k, val)) v)"
  by (auto simp: default_applyRules Let_def toString_VStr)

lemma default_VStrListMap:
  "rules s = defaultSensitiveRules L repl \<Longrightarrow>
     scrubValue s (VStrListMap v) path =
       VStrListMap (map (\<lambda>(k, vals).
          if sensitiveKey L k then (k, if length vals = 0 then [repl] else replicate (length vals) repl)
          else (k, vals)) v)"
  by (auto simp: default_applyRules Let_def toString_VStr toStringSlice_VStr map_snd_enumerate)

lemma default_VStrList:
  "rules s = defaultSensitiveRules L repl \<Longrightarrow> scrubValue s (VStrList v) path = VStrList v"
  by (simp add: default_applyRules Let_def toString_VStr indexSegment_not_sensitive
      map_snd_enumerate)

lemma default_idempotent:
  assumes "rules s = defaultSensitiveRules L repl"
  shows "scrubValue s (scrubValue s x path) path = scrubValue s x path"
proof (induction x arbitrary: path)
  case (VObj kvs)
  have "\<And>k v. (k, v) \<in> set kvs \<Longrightarrow>
      scrubValue s (scrubValue s v (path @ [k])) (path @ [k]) = scrubValue s v (path @ [k])"
    using VObj by force
  then show ?case
    by (auto simp: default_VObj [OF assms] simp del: scrubValue.simps)
next
  case (VStrMap kvs)
  show ?case
    by (auto simp: default_VStrMap [OF assms] simp del: scrubValue.simps)
next
  case (VStrListMap kvs)
  show ?case
    by (auto simp: default_VStrListMap [OF assms] simp del: scrubValue.simps)
next
  case (VStrList xs)
  show ?case
    by (simp add: default_VStrList [OF assms] del: scrubValue.simps)
next
  case (VList xs)
  then show ?case
    by simp
qed simp_all

lemma NewScrubber_default_rules:
  "rules (NewScrubber L []) = defaultSensitiveRules L ''[REDACTED]''"
  "rules (NewScrubber L [Some (WithDefaultReplacement r)])
     = defaultSensitiveRules L (if r = [] then ''[REDACTED]'' else r)"
  by (simp_all add: NewScrubber_def WithDefaultReplacement_def)

text \<open>
  C9: \<open>Scrub\<close> on a default-configured Scrubber is idempotent. The built-in rule
  replaces a matched value by a string, which has no keys, so no input makes the first
  pass introduce a key; the equation holds for every input, with the default replacement
  and with one set by \<open>WithDefaultReplacement\<close>.
\<close>

theorem default_scrub_idempotent:
  "Scrub (Some (NewScrubber L [])) (Scrub (Some (NewScrubber L [])) x)
     = Scrub (Some (NewScrubber L [])) x
   \<and> Scrub (Some (NewScrubber L [Some (WithDefaultReplacement r)]))
         (Scrub (Some (NewScrubber L [Some (WithDefaultReplacement r)])) x)
     = Scrub (Some (NewScrubber L [Some (WithDefaultReplacement r)])) x"
  using default_idempotent [OF NewScrubber_default_rules(1), of L x "[]"]
    default_idempotent [OF NewScrubber_default_rules(2), of L r x "[]"]
  by (simp add: Scrub_def)

section \<open>Default rule coverage\<close>







section \<open>Flat string maps: no aliasing\<close>

lemma fold_mapassign_frame:
  "length (fold (\<lambda>(k, v) h'. mapassign h' a k (f v)) kvs h) = length h
   \<and> take a (fold (\<lambda>(k, v) h'. mapassign h' a k (f v)) kvs h) = take a h"
  by (induction kvs arbitrary: h) (auto simp: mapassign_def)

lemma update_fresh: "k \<notin> fst ` set al \<Longrightarrow> AList.update k v al = al @ [(k, v)]"
  by (induction al) auto

lemma fold_mapassign_contents:
  "distinct (map fst kvs) \<Longrightarrow> fst ` set kvs \<inter> fst ` set acc = {} \<Longrightarrow>
     fold (\<lambda>(k, v) h'. mapassign h' (length h) k (f v)) kvs (h @ [acc])
       = h @ [acc @ map (\<lambda>(k, v). (k, f v)) kvs]"
proof (induction kvs arbitrary: acc)
  case Nil
  then show ?case by simp
next
  case (Cons e kvs)
  obtain k v where e: "e = (k, v)" by (cases e)
  have fresh: "k \<notin> fst ` set acc"
    using Cons.prems(2) e by auto
  have step: "mapassign (h @ [acc]) (length h) k (f v) = h @ [acc @ [(k, f v)]]"
    by (simp add: mapassign_def update_fresh [OF fresh])
  have d: "distinct (map fst kvs)" and nk: "k \<notin> fst ` set kvs"
    using Cons.prems(1) e by auto
  have disj: "fst ` set kvs \<inter> fst ` set (acc @ [(k, f v)]) = {}"
    using Cons.prems(2) nk e by auto
  show ?case
    using Cons.IH [OF d disj] by (simp add: e step)
qed

lemma cloneTags_frame:
  assumes "cloneTags h tags = (h1, cloned)"
  shows "take (length h) h1 = h \<and> length h \<le> length h1
         \<and> (case cloned of None \<Rightarrow> True | Some c \<Rightarrow> length h \<le> c \<and> c < length h1)"
proof (cases "length (mapContents h tags) = 0")
  case True
  with assms show ?thesis by (simp add: cloneTags_def)
next
  case False
  let ?h1 = "fold (\<lambda>(k, v) h'. mapassign h' (length h) k v) (mapContents h tags) (h @ [[]])"
  from False assms have h1: "h1 = ?h1" and c: "cloned = Some (length h)"
    by (auto simp: cloneTags_def makeMap_def)
  have "length ?h1 = length (h @ [[]]) \<and> take (length h) ?h1 = take (length h) (h @ [[]])"
    using fold_mapassign_frame [of "length h" "\<lambda>v. v" "mapContents h tags" "h @ [[]]"] by simp
  then show ?thesis
    by (simp add: h1 c)
qed

lemma scrubValue_VObj_shape: "\<exists>result. scrubValue scr (VObj v) path = VObj result"
  by simp

lemma ScrubStringMap_frame:
  assumes "ScrubStringMap s h data = (h', res)"
  shows "take (length h) h' = h \<and> length h \<le> length h'
         \<and> (case res of None \<Rightarrow> True | Some c \<Rightarrow> length h \<le> c \<and> c < length h')"
proof -
  obtain h1 cloned where ct: "cloneTags h data = (h1, cloned)"
    by (cases "cloneTags h data")
  note f1 = cloneTags_frame [OF ct]
  show ?thesis
  proof (cases "s = None \<or> length (mapContents h1 cloned) = 0")
    case True
    with assms ct have "h' = h1" "res = cloned"
      by (auto simp: ScrubStringMap_def split: option.splits)
    with f1 show ?thesis by (auto split: option.splits)
  next
    case False
    then obtain scr where s: "s = Some scr" and ne: "length (mapContents h1 cloned) \<noteq> 0"
      by auto
    obtain result where r: "scrubValue scr
        (VObj (map (\<lambda>(k, v). (k, VStr v)) (mapContents h1 cloned))) [] = VObj result"
      using scrubValue_VObj_shape by blast
    let ?h' = "fold (\<lambda>(k, v) h'. mapassign h' (length h1) k (toString v)) result (h1 @ [[]])"
    from assms ct s ne r have h': "h' = ?h'" and res: "res = Some (length h1)"
      by (auto simp: ScrubStringMap_def makeMap_def Let_def)
    have "length ?h' = length (h1 @ [[]]) \<and> take (length h1) ?h' = take (length h1) (h1 @ [[]])"
      using fold_mapassign_frame [of "length h1" toString result "h1 @ [[]]"] by simp
    then have l: "length ?h' = Suc (length h1)" and t: "take (length h1) ?h' = h1"
      by simp_all
    have "take (length h) ?h' = take (length h) (take (length h1) ?h')"
      using f1 by (simp add: min_def)
    also have "\<dots> = h"
      using f1 t by simp
    finally show ?thesis
      using f1 l by (simp add: h' res)
  qed
qed

lemma cloneTags_contents:
  assumes "cloneTags h tags = (h1, cloned)" and "distinct (map fst (mapContents h tags))"
  shows "mapContents h1 cloned = mapContents h tags"
proof (cases "length (mapContents h tags) = 0")
  case True
  with assms show ?thesis by (auto simp: cloneTags_def mapContents_def)
next
  case False
  have "fold (\<lambda>(k, v) h'. mapassign h' (length h) k v) (mapContents h tags) (h @ [[]])
          = h @ [[] @ map (\<lambda>(k, v). (k, v)) (mapContents h tags)]"
    using fold_mapassign_contents [of "mapContents h tags" "[]" h "\<lambda>v. v"] assms(2) by simp
  with False assms(1) show ?thesis
    by (auto simp: cloneTags_def makeMap_def mapContents_def)
qed

lemma ScrubStringMap_contents:
  assumes d: "distinct (map fst kvs)" and ne: "kvs \<noteq> []"
    and a: "a < length h" and ha: "h ! a = kvs"
    and r: "scrubValue s (VObj (map (\<lambda>(k, v). (k, VStr v)) kvs)) [] = VObj result"
    and dr: "distinct (map fst result)"
  shows "ScrubStringMap (Some s) h (Some a)
           = (h @ [kvs, map (\<lambda>(k, v). (k, toString v)) result], Some (Suc (length h)))"
proof -
  have c: "cloneTags h (Some a) = (h @ [kvs], Some (length h))"
    using fold_mapassign_contents [of kvs "[]" h "\<lambda>v. v"] d ne ha
    by (simp add: cloneTags_def mapContents_def makeMap_def)
  have f: "fold (\<lambda>(k, v) h'. mapassign h' (length (h @ [kvs])) k (toString v)) result
             ((h @ [kvs]) @ [[]])
           = (h @ [kvs]) @ [[] @ map (\<lambda>(k, v). (k, toString v)) result]"
    using fold_mapassign_contents [of result "[]" "h @ [kvs]" toString] dr by simp
  show ?thesis
    unfolding ScrubStringMap_def c
    using ne r f by (simp add: mapContents_def makeMap_def Let_def del: scrubValue.simps)
qed

lemma scrub_generic:
  "scrubValue scr (VObj (map (\<lambda>(k, v). (k, VStr v)) kvs)) []
     = VObj (map (\<lambda>(k, v).
         case applyRules scr \<lparr>Path = [k], Key = k, Value = VStr v\<rparr> of
           (replaced, ok) \<Rightarrow> if ok then (k, replaced) else (k, VStr v)) kvs)"
  by (induction kvs) (auto simp: Let_def split: prod.splits)

lemma ScrubStringMap_value:
  assumes a: "case data of None \<Rightarrow> True | Some a \<Rightarrow> a < length h"
    and d: "distinct (map fst (mapContents h data))"
  shows "ScrubStringMap s h data =
           (if mapContents h data = [] then (h, None)
            else case s of
                   None \<Rightarrow> (h @ [mapContents h data], Some (length h))
                 | Some scr \<Rightarrow>
                     (h @ [mapContents h data, map (scrubEntry s) (mapContents h data)],
                      Some (Suc (length h))))"
proof (cases "mapContents h data = []")
  case True
  then show ?thesis
    by (simp add: ScrubStringMap_def cloneTags_def mapContents_def split: option.splits)
next
  case False
  let ?kvs = "mapContents h data"
  obtain a where da: "data = Some a" and al: "a < length h" and ha: "h ! a = ?kvs"
    using False a by (cases data) (auto simp: mapContents_def)
  have c: "cloneTags h data = (h @ [?kvs], Some (length h))"
    using fold_mapassign_contents [of ?kvs "[]" h "\<lambda>v. v"] d False
    by (simp add: cloneTags_def makeMap_def)
  show ?thesis
  proof (cases s)
    case None
    with c False show ?thesis
      by (simp add: ScrubStringMap_def)
  next
    case (Some scr)
    let ?result = "map (\<lambda>(k, v).
         case applyRules scr \<lparr>Path = [k], Key = k, Value = VStr v\<rparr> of
           (replaced, ok) \<Rightarrow> if ok then (k, replaced) else (k, VStr v)) ?kvs"
    have fr: "map fst ?result = map fst ?kvs"
      by (induction ?kvs) (auto split: prod.splits)
    have dr: "distinct (map fst ?result)"
      using d by (simp only: fr)
    have fin: "map (\<lambda>(k, v). (k, toString v)) ?result = map (scrubEntry s) ?kvs"
      by (auto simp: scrubEntry_def Some toString_def split: prod.splits)
    have "ScrubStringMap (Some scr) h (Some a)
           = (h @ [?kvs, map (\<lambda>(k, v). (k, toString v)) ?result], Some (Suc (length h)))"
      using ScrubStringMap_contents [OF d False al ha scrub_generic dr] .
    with False Some da fin show ?thesis
      by simp
  qed
qed

text \<open>
  C2, as stated, fails: for the empty map the result is not a freshly cloned map. With
  any receiver \<open>cloneTags\<close> returns the nil map for an input without entries, and
  \<open>ScrubStringMap\<close> returns it; no map is allocated.
\<close>

theorem empty_map_returns_nil_counterexample:
  "ScrubStringMap (Some (NewScrubber exampleLib [])) [[]] (Some 0) = ([[]], None)
   \<and> ScrubStringMap None [[]] (Some 0) = ([[]], None)"
  by code_simp

text \<open>
  C2, amended: for every input map and every receiver (nil among them), \<open>ScrubStringMap\<close>
  returns a map that shares no storage with the input: the nil map when the input has no
  entries, and otherwise a map allocated during the call, with the keys of the input,
  holding the input's entries under a nil receiver and the scrubbed entries otherwise.
  The call leaves every map of the store as it was, the input with them; whatever is
  later written to the input leaves the returned map as it is, and whatever is written
  to the returned map leaves the input as it is.
\<close>

theorem ScrubStringMap_no_aliasing:
  assumes valid: "case data of None \<Rightarrow> True | Some a \<Rightarrow> a < length h"
    and keys: "distinct (map fst (mapContents h data))"
    and call: "ScrubStringMap s h data = (h', res)"
  shows "(mapContents h data = [] \<longrightarrow> h' = h \<and> res = None)
         \<and> (mapContents h data \<noteq> [] \<longrightarrow>
               (\<exists>a'. res = Some a' \<and> length h \<le> a' \<and> a' < length h' \<and> data \<noteq> Some a'
                  \<and> mapContents h' res = map (scrubEntry s) (mapContents h data)))
         \<and> take (length h) h' = h
         \<and> mapContents h' data = mapContents h data
         \<and> (\<forall>a a' m. data = Some a \<longrightarrow> res = Some a' \<longrightarrow>
               mapContents (h'[a := m]) res = mapContents h' res
               \<and> mapContents (h'[a' := m]) data = mapContents h' data)"
proof -
  note v = ScrubStringMap_value [OF valid keys, of s]
  have e: "h' = h \<and> res = None" if "mapContents h data = []"
    using that v call by simp
  have n: "\<exists>a'. res = Some a' \<and> length h \<le> a' \<and> a' < length h' \<and> data \<noteq> Some a'
                  \<and> mapContents h' res = map (scrubEntry s) (mapContents h data)"
    if "mapContents h data \<noteq> []"
  proof (cases s)
    case None
    have id: "map (scrubEntry None) (mapContents h data) = mapContents h data"
      by (intro map_idI) (auto simp: scrubEntry_def)
    from that v call None have "h' = h @ [mapContents h data]" "res = Some (length h)"
      by simp_all
    with valid None id show ?thesis
      by (cases data) (auto simp: mapContents_def)
  next
    case (Some scr)
    from that v call Some have
      "h' = h @ [mapContents h data, map (scrubEntry s) (mapContents h data)]"
      "res = Some (Suc (length h))"
      by simp_all
    with valid show ?thesis
      by (cases data) (auto simp: mapContents_def nth_append)
  qed
  have keep: "take (length h) h' = h"
    using v call by (auto split: if_splits option.splits)
  have same: "mapContents h' data = mapContents h data"
  proof (cases data)
    case None
    then show ?thesis by (simp add: mapContents_def)
  next
    case (Some a)
    with valid have "a < length h" by simp
    then have "h' ! a = take (length h) h' ! a" by simp
    with keep Some show ?thesis by (simp add: mapContents_def)
  qed
  have indep: "mapContents (h'[a := m]) res = mapContents h' res
               \<and> mapContents (h'[a' := m]) data = mapContents h' data"
    if "data = Some a" "res = Some a'" for a a' m
  proof -
    have "mapContents h data \<noteq> []"
      using e that(2) by auto
    from n [OF this] that have "a \<noteq> a'" by auto
    with that show ?thesis
      by (auto simp: mapContents_def)
  qed
  from e n keep same indep show ?thesis
    by blast
qed

theorem ScrubStringMap_no_aliasing_witness:
  "ScrubStringMap (Some (NewScrubber exampleLib [])) tagStore (Some 0)
     = (tagStore @ [[(''token'', ''abc''), (''other'', ''ok'')],
                    [(''token'', ''[REDACTED]''), (''other'', ''ok'')]], Some 3)
   \<and> mapContents
         ((tagStore @ [[(''token'', ''abc''), (''other'', ''ok'')],
                       [(''token'', ''[REDACTED]''), (''other'', ''ok'')]])[0 := [(''token'', ''new'')]])
         (Some 3)
       = [(''token'', ''[REDACTED]''), (''other'', ''ok'')]
   \<and> map (scrubEntry (Some (NewScrubber exampleLib []))) (mapContents tagStore (Some 0))
       = [(''token'', ''[REDACTED]''), (''other'', ''ok'')]"
proof -
  let ?h' = "tagStore @ [[(''token'', ''abc''), (''other'', ''ok'')],
                    [(''token'', ''[REDACTED]''), (''other'', ''ok'')]]"
  have c1: "ScrubStringMap (Some (NewScrubber exampleLib [])) tagStore (Some 0) = (?h', Some 3)"
    by code_simp
  have v: "case Some (0::nat) of None \<Rightarrow> True | Some a \<Rightarrow> a < length tagStore"
    by (simp add: tagStore_def)
  have k: "distinct (map fst (mapContents tagStore (Some 0)))"
    by (simp add: mapContents_def tagStore_def)
  have ne: "mapContents tagStore (Some 0) \<noteq> []"
    by (simp add: mapContents_def tagStore_def)
  have r: "mapContents ?h' (Some 3) = [(''token'', ''[REDACTED]''), (''other'', ''ok'')]"
    by (simp add: mapContents_def tagStore_def)
  note t = ScrubStringMap_no_aliasing [OF v k c1]
  from t have "mapContents (?h'[0 := [(''token'', ''new'')]]) (Some 3) = mapContents ?h' (Some 3)"
    by blast
  moreover from t ne have "mapContents ?h' (Some 3)
      = map (scrubEntry (Some (NewScrubber exampleLib []))) (mapContents tagStore (Some 0))"
    by auto
  ultimately show ?thesis
    using c1 r by simp
qed

section \<open>RemoveValue in flat string maps\<close>

text \<open>
  The rule that \<open>lastFired\<close> returns is a rule of the list that fired on the working
  value it met.
\<close>

lemma lastFired_fires:
  "lastFired rs ctx current prev = Some r \<Longrightarrow>
     prev = Some r \<or> (r \<in> set rs \<and> (\<exists>w. fires r ctx w))"
proof (induction rs arbitrary: current prev)
  case Nil
  then show ?case by simp
next
  case (Cons rule rest)
  show ?case
  proof (cases "fires rule ctx current")
    case False
    with Cons.prems have "lastFired rest ctx current prev = Some r"
      by (auto simp: fires_def split: option.splits)
    from Cons.IH [OF this] show ?thesis by auto
  next
    case True
    then obtain f where f: "Apply rule = Some f"
      by (auto simp: fires_def)
    show ?thesis
    proof (cases "Continue rule")
      case False
      with True f Cons.prems have "rule = r"
        by (auto simp: fires_def Let_def split: option.splits)
      with True show ?thesis by auto
    next
      case c: True
      with True f Cons.prems have
        "lastFired rest ctx (f \<lparr>Path = Path ctx, Key = Key ctx, Value = current\<rparr>) (Some rule) = Some r"
        by (auto simp: fires_def Let_def split: option.splits)
      from Cons.IH [OF this] True show ?thesis by auto
    qed
  qed
qed

lemma lastFired_RemoveValue:
  "lastFired rs ctx current prev = Some r \<Longrightarrow> Apply r = Some RemoveValue \<Longrightarrow>
   (case prev of None \<Rightarrow> \<not> matched
    | Some q \<Rightarrow> matched \<and> (Apply q = Some RemoveValue \<longrightarrow> current = VNil)) \<Longrightarrow>
   applyLoop rs ctx current matched = (VNil, True)"
proof (induction rs arbitrary: current prev matched)
  case Nil
  then show ?case by simp
next
  case (Cons rule rest)
  show ?case
  proof (cases "case Match rule of None \<Rightarrow> False
      | Some matcher \<Rightarrow> \<not> matcher \<lparr>Path = Path ctx, Key = Key ctx, Value = current\<rparr>")
    case True
    with Cons.prems have "lastFired rest ctx current prev = Some r" by simp
    from Cons.IH [OF this Cons.prems(2,3)] True show ?thesis by simp
  next
    case notskipped: False
    show ?thesis
    proof (cases "Apply rule")
      case None
      with notskipped Cons.prems have "lastFired rest ctx current prev = Some r" by simp
      from Cons.IH [OF this Cons.prems(2,3)] notskipped None show ?thesis by simp
    next
      case (Some f)
      let ?c = "f \<lparr>Path = Path ctx, Key = Key ctx, Value = current\<rparr>"
      show ?thesis
      proof (cases "Continue rule")
        case False
        with notskipped Some Cons.prems(1) have "rule = r" by (simp add: Let_def)
        with Some Cons.prems(2) have "?c = VNil" by (auto simp: RemoveValue_def)
        with notskipped Some False show ?thesis by (simp add: Let_def)
      next
        case True
        with notskipped Some Cons.prems(1)
        have l: "lastFired rest ctx ?c (Some rule) = Some r" by (simp add: Let_def)
        have inv: "case Some rule of None \<Rightarrow> \<not> True
            | Some q \<Rightarrow> True \<and> (Apply q = Some RemoveValue \<longrightarrow> ?c = VNil)"
          using Some by (auto simp: RemoveValue_def)
        from Cons.IH [OF l Cons.prems(2) inv] notskipped Some True show ?thesis
          by (simp add: Let_def)
      qed
    qed
  qed
qed

lemma applyRules_RemoveValue:
  "lastFired (rules s) ctx (Value ctx) None = Some r \<Longrightarrow> Apply r = Some RemoveValue \<Longrightarrow>
     applyRules s ctx = (VNil, True)"
  using lastFired_RemoveValue [of "rules s" ctx "Value ctx" None r False]
  by (simp add: applyRules_def)

text \<open>
  C10, as stated, fails: a \<open>RemoveValue\<close> rule with the chain flag set matches the entry,
  a later rule fires on its output, and the entry ends with that rule's value, not with
  the empty string.
\<close>

theorem RemoveValue_overridden_counterexample:
  "fires (hd (rules removeThenReplace)) \<lparr>Path = [''a''], Key = ''a'', Value = VStr ''v''\<rparr> (VStr ''v'')
   \<and> Apply (hd (rules removeThenReplace)) = Some RemoveValue
   \<and> scrubValue removeThenReplace (VStrMap [(''a'', ''v'')]) [] = VStrMap [(''a'', ''x'')]
   \<and> ScrubStringMap (Some removeThenReplace) [[(''a'', ''v'')]] (Some 0)
       = ([[(''a'', ''v'')], [(''a'', ''v'')], [(''a'', ''x'')]], Some 2)"
  by (simp add: removeThenReplace_def fires_def applyRules_def RemoveValue_def ReplaceWith_def
      toString_def ScrubStringMap_def cloneTags_def mapContents_def makeMap_def mapassign_def)

text \<open>
  C10, amended: when a rule whose transform is \<open>RemoveValue\<close> matches an entry of a flat
  string-to-string map and is the last rule applied to it (no later rule fires on its
  output through chaining), the output map, of the string-map branch of the traversal
  and of \<open>ScrubStringMap\<close> alike, has the keys of the input, the entry's key among
  them, with the empty string as that key's value.
\<close>

theorem RemoveValue_flat_map:
  assumes lf: "lastFired (rules s) \<lparr>Path = path @ [k], Key = k, Value = VStr v\<rparr> (VStr v) None
                 = Some r"
    and rv: "Apply r = Some RemoveValue"
    and i: "i < length kvs"
    and e: "kvs ! i = (k, v)"
  shows "(\<exists>kvs'. scrubValue s (VStrMap kvs) path = VStrMap kvs'
            \<and> map fst kvs' = map fst kvs \<and> kvs' ! i = (k, []))
         \<and> (path = [] \<longrightarrow> distinct (map fst kvs) \<longrightarrow> a < length h \<longrightarrow> h ! a = kvs \<longrightarrow>
              (\<exists>h' a'. ScrubStringMap (Some s) h (Some a) = (h', Some a')
                 \<and> map fst (h' ! a') = map fst kvs \<and> (h' ! a') ! i = (k, [])))"
proof
  have ar: "applyRules s \<lparr>Path = path @ [k], Key = k, Value = VStr v\<rparr> = (VNil, True)"
    using applyRules_RemoveValue [OF _ rv, of s "\<lparr>Path = path @ [k], Key = k, Value = VStr v\<rparr>"] lf
    by simp
  obtain kvs' where 1: "scrubValue s (VStrMap kvs) path = VStrMap kvs'"
    and 2: "map fst kvs' = map fst kvs"
    and 3: "\<forall>i<length kvs. kvs' ! i =
            (case kvs ! i of (k, v) \<Rightarrow>
               (case applyRules s \<lparr>Path = path @ [k], Key = k, Value = VStr v\<rparr> of
                  (replaced, ok) \<Rightarrow> if ok then (k, toString replaced) else (k, v)))"
    using scrub_VStrMap_keys [of s kvs path] by blast
  from 3 i e ar have "kvs' ! i = (k, [])"
    by (simp add: toString_def)
  with 1 2 show "\<exists>kvs'. scrubValue s (VStrMap kvs) path = VStrMap kvs'
            \<and> map fst kvs' = map fst kvs \<and> kvs' ! i = (k, [])"
    by blast
next
  show "path = [] \<longrightarrow> distinct (map fst kvs) \<longrightarrow> a < length h \<longrightarrow> h ! a = kvs \<longrightarrow>
              (\<exists>h' a'. ScrubStringMap (Some s) h (Some a) = (h', Some a')
                 \<and> map fst (h' ! a') = map fst kvs \<and> (h' ! a') ! i = (k, []))"
  proof (intro impI)
    assume p: "path = []" and d: "distinct (map fst kvs)" and a: "a < length h" and ha: "h ! a = kvs"
    let ?g = "map (\<lambda>(k, v). (k, VStr v)) kvs"
    have ar: "applyRules s \<lparr>Path = [] @ [k], Key = k, Value = VStr v\<rparr> = (VNil, True)"
      using applyRules_RemoveValue [OF _ rv, of s "\<lparr>Path = [] @ [k], Key = k, Value = VStr v\<rparr>"]
        lf p by simp
    have gl: "length ?g = length kvs" and gf: "map fst ?g = map fst kvs"
      by (auto simp: case_prod_beta)
    have gi: "?g ! i = (k, VStr v)"
      using i e by simp
    obtain result where 1: "scrubValue s (VObj ?g) [] = VObj result"
      and 2: "map fst result = map fst ?g"
      and 3: "\<forall>i<length ?g. result ! i =
            (case ?g ! i of (k, v) \<Rightarrow>
               (case applyRules s \<lparr>Path = [] @ [k], Key = k, Value = v\<rparr> of
                  (replaced, ok) \<Rightarrow> if ok then (k, replaced)
                                  else (k, scrubValue s v ([] @ [k]))))"
      using scrub_VObj_keys [of s ?g "[]"] by blast
    have ri: "result ! i = (k, VNil)"
      using 3 [rule_format, of i] i gl gi ar by simp
    have rf: "map fst result = map fst kvs"
      using 2 gf by (simp only:)
    have rl: "length result = length kvs"
      using rf by (metis length_map)
    have dr: "distinct (map fst result)"
      using d by (simp only: rf)
    have ne: "kvs \<noteq> []"
      using i by auto
    let ?final = "map (\<lambda>(k, v). (k, toString v)) result"
    have call: "ScrubStringMap (Some s) h (Some a) = (h @ [kvs, ?final], Some (Suc (length h)))"
      using ScrubStringMap_contents [OF d ne a ha 1 dr] .
    have sel: "(h @ [kvs, ?final]) ! Suc (length h) = ?final"
      by (simp add: nth_append)
    have "map fst ?final = map fst result"
      by (auto simp: case_prod_beta)
    then have ff: "map fst ?final = map fst kvs"
      by (simp only: rf)
    have fi: "?final ! i = (k, [])"
      using ri i rl by (simp add: toString_def)
    from call sel ff fi show "\<exists>h' a'. ScrubStringMap (Some s) h (Some a) = (h', Some a')
                 \<and> map fst (h' ! a') = map fst kvs \<and> (h' ! a') ! i = (k, [])"
      by (metis (no_types, lifting))
  qed
qed

theorem RemoveValue_flat_map_witness:
  "(\<exists>kvs'. scrubValue dropSecret (VStrMap [(''user'', ''bob''), (''secret'', ''s3'')]) []
              = VStrMap kvs'
          \<and> map fst kvs' = [''user'', ''secret''] \<and> kvs' ! 1 = (''secret'', []))
   \<and> (\<exists>h' a'. ScrubStringMap (Some dropSecret) [[(''user'', ''bob''), (''secret'', ''s3'')]] (Some 0)
                 = (h', Some a')
          \<and> map fst (h' ! a') = [''user'', ''secret''] \<and> (h' ! a') ! 1 = (''secret'', []))"
proof -
  have lf: "lastFired (rules dropSecret) \<lparr>Path = [] @ [''secret''], Key = ''secret'', Value = VStr ''s3''\<rparr>
              (VStr ''s3'') None
            = Some (NewRule ''drop'' (Some (\<lambda>ctx. Key ctx = ''secret'')) (Some RemoveValue))"
    by (simp add: dropSecret_def NewRule_def)
  have rv: "Apply (NewRule ''drop'' (Some (\<lambda>ctx. Key ctx = ''secret'')) (Some RemoveValue))
              = Some RemoveValue"
    by (simp add: NewRule_def)
  have i: "(1::nat) < length [(''user'', ''bob''), (''secret'', ''s3'')]"
    by simp
  have e: "[(''user'', ''bob''), (''secret'', ''s3'')] ! 1 = (''secret'', ''s3'')"
    by simp
  from RemoveValue_flat_map [OF lf rv i e, of 0 "[[(''user'', ''bob''), (''secret'', ''s3'')]]"]
  show ?thesis
    by simp
qed

end
